theory Spec2Isabelle
  imports Complex_Main "HOL-Library.Word"
begin

section \<open>Strings and numbers of the source language\<close>

text \<open>
  A TypeScript string is a sequence of UTF-16 code units and \<open>.length\<close> counts them, so a
  string is a list of 16-bit words. \<open>js\<close> embeds an ASCII literal. A TypeScript
  \<open>number\<close> is modelled as an exact \<open>real\<close> (or \<open>int\<close>/\<open>nat\<close> where the source only
  produces integers); rounding error, NaN and the infinities of IEEE doubles are outside
  the model.
\<close>

type_synonym jschar = "16 word"
type_synonym jsstring = "jschar list"

definition js :: "string \<Rightarrow> jsstring" where
  "js s = map (\<lambda>c. of_nat (of_char c)) s"

text \<open>\<open>Math.round\<close> rounds to the nearest integer, halves towards plus infinity.\<close>

definition Math_round :: "real \<Rightarrow> int" where
  "Math_round x = \<lfloor>x + 1 / 2\<rfloor>"

section \<open>Issue schema (schemas/issue.ts)\<close>

datatype IssueCategory =
  Security | Correctness | Performance | Maintainability | Style | Dependency

datatype IssueSeverity = Low | Medium | High | Critical

record Issue =
  issue_id :: jsstring
  category :: IssueCategory
  subtype :: jsstring
  severity :: IssueSeverity
  confidence :: real
  file_path :: jsstring
  line_start :: int
  line_end :: int
  message :: jsstring
  evidence :: jsstring
  suggested_fix :: "jsstring option"
  patch :: "jsstring option"
  owasp_tag :: "jsstring option"
  cwe :: "jsstring option"
  source_tool :: "jsstring option"
  is_llm_generated :: bool

section \<open>Risk scorer (risk-scorer.ts)\<close>

datatype RiskLevel = RiskLow | RiskMedium | RiskHigh | RiskCritical

record CategoryBreakdown =
  cb_category :: IssueCategory
  cb_count :: nat
  max_severity :: IssueSeverity
  score_contribution :: real

record RiskScoreResult =
  score :: int
  level :: RiskLevel
  breakdown :: "CategoryBreakdown list"
  rawScore :: real
  maxPossibleScore :: real

fun SEVERITY_WEIGHTS :: "IssueSeverity \<Rightarrow> real" where
  "SEVERITY_WEIGHTS Low = 1"
| "SEVERITY_WEIGHTS Medium = 3"
| "SEVERITY_WEIGHTS High = 7"
| "SEVERITY_WEIGHTS Critical = 15"

fun CATEGORY_WEIGHTS :: "IssueCategory \<Rightarrow> real" where
  "CATEGORY_WEIGHTS Security = 4"
| "CATEGORY_WEIGHTS Correctness = 3"
| "CATEGORY_WEIGHTS Dependency = 5 / 2"
| "CATEGORY_WEIGHTS Performance = 2"
| "CATEGORY_WEIGHTS Maintainability = 3 / 2"
| "CATEGORY_WEIGHTS Style = 1"

text \<open>
  \<open>ScoreConfig\<close> after the merge \<open>{ ...DEFAULT_SCORE_CONFIG, ...config }\<close>: the two optional
  weight tables are partial maps (an absent table is the empty map, which the spread
  \<open>{ ...SEVERITY_WEIGHTS, ...cfg.severityWeights }\<close> treats alike). The quotient by
  \<open>maxPossibleScore\<close> is IEEE division in the source; the model agrees with it whenever
  \<open>maxExpectedIssues\<close> is not zero.
\<close>

record ScoreConfig =
  maxExpectedIssues :: real
  severityWeights :: "IssueSeverity \<rightharpoonup> real"
  categoryWeights :: "IssueCategory \<rightharpoonup> real"

definition DEFAULT_SCORE_CONFIG :: ScoreConfig where
  "DEFAULT_SCORE_CONFIG =
     \<lparr>maxExpectedIssues = 20, severityWeights = Map.empty, categoryWeights = Map.empty\<rparr>"

definition sevWeights :: "ScoreConfig \<Rightarrow> IssueSeverity \<Rightarrow> real" where
  "sevWeights cfg s = (case severityWeights cfg s of Some w \<Rightarrow> w | None \<Rightarrow> SEVERITY_WEIGHTS s)"

definition catWeights :: "ScoreConfig \<Rightarrow> IssueCategory \<Rightarrow> real" where
  "catWeights cfg c = (case categoryWeights cfg c of Some w \<Rightarrow> w | None \<Rightarrow> CATEGORY_WEIGHTS c)"

text \<open>
  \<open>categoryGroups\<close> is a \<open>Map\<close>, iterated in insertion order of its keys: an association
  list in which a key keeps the position of its first insertion.
\<close>

fun groups_push :: "(IssueCategory \<times> Issue list) list \<Rightarrow> Issue \<Rightarrow> (IssueCategory \<times> Issue list) list" where
  "groups_push [] i = [(category i, [i])]"
| "groups_push ((c, xs) # g) i =
     (if c = category i then (c, xs @ [i]) # g else (c, xs) # groups_push g i)"

definition categoryGroups :: "Issue list \<Rightarrow> (IssueCategory \<times> Issue list) list" where
  "categoryGroups issues = foldl groups_push [] issues"

text \<open>The inner loop over the issues of one category: \<open>(categoryScore, maxSeverity)\<close>.\<close>

fun scoreIssues :: "ScoreConfig \<Rightarrow> IssueCategory \<Rightarrow> Issue list \<Rightarrow> real \<times> IssueSeverity \<Rightarrow> real \<times> IssueSeverity" where
  "scoreIssues cfg c [] acc = acc"
| "scoreIssues cfg c (i # rest) (categoryScore, maxSeverity) =
     scoreIssues cfg c rest
       (categoryScore + sevWeights cfg (severity i) * confidence i * catWeights cfg c,
        if SEVERITY_WEIGHTS (severity i) > SEVERITY_WEIGHTS maxSeverity then severity i
        else maxSeverity)"

text \<open>The outer loop over the categories: \<open>(breakdown, totalRawScore)\<close>.\<close>

fun scoreGroups :: "ScoreConfig \<Rightarrow> (IssueCategory \<times> Issue list) list \<Rightarrow> CategoryBreakdown list \<times> real \<Rightarrow> CategoryBreakdown list \<times> real" where
  "scoreGroups cfg [] acc = acc"
| "scoreGroups cfg ((c, categoryIssues) # g) (bd, totalRawScore) =
     (case scoreIssues cfg c categoryIssues (0, Low) of
        (categoryScore, maxSeverity) \<Rightarrow>
          scoreGroups cfg g
            (bd @ [\<lparr>cb_category = c, cb_count = length categoryIssues,
                     max_severity = maxSeverity,
                     score_contribution = real_of_int (Math_round (categoryScore * 10)) / 10\<rparr>],
             totalRawScore + categoryScore))"

definition riskLevelOf :: "int \<Rightarrow> RiskLevel" where
  "riskLevelOf finalScore =
     (if finalScore \<ge> 85 then RiskCritical
      else if finalScore \<ge> 60 then RiskHigh
      else if finalScore \<ge> 30 then RiskMedium
      else RiskLow)"

text \<open>
  \<open>breakdown.sort((a, b) => b.score_contribution - a.score_contribution)\<close> is a stable
  sort, descending in the contribution.
\<close>

definition calculateRiskScore :: "Issue list \<Rightarrow> ScoreConfig \<Rightarrow> RiskScoreResult" where
  "calculateRiskScore issues cfg =
     (case scoreGroups cfg (categoryGroups issues) ([], 0) of
        (bd, totalRawScore) \<Rightarrow>
          (let sorted = sort_key (\<lambda>b. - score_contribution b) bd;
               maxPossible = maxExpectedIssues cfg * SEVERITY_WEIGHTS Critical * CATEGORY_WEIGHTS Security;
               normalizedScore = min 100 (totalRawScore / maxPossible * 100);
               finalScore = Math_round (min 100 (normalizedScore * (11 / 10)))
           in \<lparr>score = min 100 finalScore, level = riskLevelOf finalScore,
               breakdown = sorted, rawScore = totalRawScore,
               maxPossibleScore = maxPossible\<rparr>))"

definition shouldFailCheck :: "RiskScoreResult \<Rightarrow> real \<Rightarrow> bool \<Rightarrow> bool" where
  "shouldFailCheck result threshold failOnCriticalSecurity =
     (if real_of_int (score result) \<ge> threshold then True
      else if failOnCriticalSecurity \<and>
              (case find (\<lambda>b. cb_category b = Security) (breakdown result) of
                 None \<Rightarrow> False
               | Some securityBreakdown \<Rightarrow> max_severity securityBreakdown = Critical)
           then True
      else False)"

definition getIssueScore :: "Issue \<Rightarrow> real" where
  "getIssueScore issue =
     SEVERITY_WEIGHTS (severity issue) * confidence issue * CATEGORY_WEIGHTS (category issue)"

text \<open>\<open>[...issues].sort((a, b) => getIssueScore(b) - getIssueScore(a))\<close>: stable, descending.\<close>

definition sortIssuesByPriority :: "Issue list \<Rightarrow> Issue list" where
  "sortIssuesByPriority issues = sort_key (\<lambda>i. - getIssueScore i) issues"

text \<open>The fixture \<open>createTestIssue\<close> of risk-scorer.test.ts (with a fixed UUID).\<close>

definition createTestIssue :: "IssueCategory \<Rightarrow> IssueSeverity \<Rightarrow> real \<Rightarrow> Issue" where
  "createTestIssue c s conf =
     \<lparr>issue_id = js ''00000000-0000-4000-8000-000000000000'', category = c,
      subtype = js ''test'', severity = s, confidence = conf, file_path = js ''test.ts'',
      line_start = 1, line_end = 1, message = js ''Test issue'', evidence = js ''test'',
      suggested_fix = None, patch = None, owasp_tag = None, cwe = None, source_tool = None,
      is_llm_generated = False\<rparr>"

section \<open>Aggregator (aggregator.ts)\<close>

text \<open>
  \<open>xs.slice(0, end)\<close> on arrays and strings: a negative \<open>end\<close> counts from the end.
\<close>

definition slice0 :: "'a list \<Rightarrow> int \<Rightarrow> 'a list" where
  "slice0 xs e = (if e < 0 then take (nat (int (length xs) + e)) xs else take (nat e) xs)"

text \<open>
  Template-literal rendering of an integer-valued number (plain decimal, which is what
  \<open>Number.prototype.toString\<close> gives below \<open>10^21\<close>) and of the category enum.
\<close>

fun natToString :: "nat \<Rightarrow> jsstring" where
  "natToString n =
     (if n < 10 then [of_nat (48 + n)] else natToString (n div 10) @ [of_nat (48 + n mod 10)])"

declare natToString.simps [simp del]

definition numToString :: "int \<Rightarrow> jsstring" where
  "numToString n = (if n < 0 then js ''-'' @ natToString (nat (- n)) else natToString (nat n))"

fun categoryString :: "IssueCategory \<Rightarrow> jsstring" where
  "categoryString Security = js ''security''"
| "categoryString Correctness = js ''correctness''"
| "categoryString Performance = js ''performance''"
| "categoryString Maintainability = js ''maintainability''"
| "categoryString Style = js ''style''"
| "categoryString Dependency = js ''dependency''"

definition createDedupeKey :: "Issue \<Rightarrow> jsstring" where
  "createDedupeKey issue =
     file_path issue @ js '':'' @ numToString (line_start issue) @ js ''-'' @
     numToString (line_end issue) @ js '':'' @ categoryString (category issue) @ js '':'' @
     slice0 (subtype issue) 20"

fun severityOrder :: "IssueSeverity \<Rightarrow> nat" where
  "severityOrder Critical = 4"
| "severityOrder High = 3"
| "severityOrder Medium = 2"
| "severityOrder Low = 1"

definition shouldReplace :: "Issue \<Rightarrow> Issue \<Rightarrow> bool" where
  "shouldReplace existing newIssue =
     (let existingSev = severityOrder (severity existing);
          newSev = severityOrder (severity newIssue)
      in if newSev > existingSev then True
         else if newSev < existingSev then False
         else confidence newIssue > confidence existing)"

text \<open>
  \<open>seen\<close> is a \<open>Map<string, Issue>\<close>: \<open>set\<close> on a present key replaces the value and
  keeps the key's position, on a new key it appends; \<open>values()\<close> follows that order.
\<close>

fun seen_set :: "(jsstring \<times> Issue) list \<Rightarrow> jsstring \<Rightarrow> Issue \<Rightarrow> (jsstring \<times> Issue) list" where
  "seen_set [] k v = [(k, v)]"
| "seen_set ((k', v') # s) k v = (if k' = k then (k, v) # s else (k', v') # seen_set s k v)"

definition dedupStep :: "(jsstring \<times> Issue) list \<Rightarrow> Issue \<Rightarrow> (jsstring \<times> Issue) list" where
  "dedupStep seen issue =
     (let key = createDedupeKey issue
      in case map_of seen key of
           None \<Rightarrow> seen_set seen key issue
         | Some existing \<Rightarrow>
             if shouldReplace existing issue then seen_set seen key issue else seen)"

definition deduplicateIssues :: "Issue list \<Rightarrow> Issue list" where
  "deduplicateIssues issues = map snd (foldl dedupStep [] issues)"

text \<open>
  The fields of \<open>WorkerConfig\<close> that the modelled functions read; the record is
  extensible, the remaining fields live in its extension.
\<close>

record WorkerConfig =
  maxInlineComments :: int
  confidenceThreshold :: real
  enableOsvScan :: bool
  osvApiUrl :: jsstring

record AggregationStats =
  totalFound :: nat
  afterDedup :: nat
  afterFiltering :: nat
  selected :: nat

record AggregationResult =
  inlineComments :: "Issue list"
  allIssues :: "Issue list"
  riskScore :: RiskScoreResult
  stats :: AggregationStats

definition aggregateIssues :: "Issue list \<Rightarrow> 'a WorkerConfig_scheme \<Rightarrow> AggregationResult" where
  "aggregateIssues issues config =
     (let deduplicated = deduplicateIssues issues;
          filtered = filter (\<lambda>issue. confidence issue \<ge> confidenceThreshold config) deduplicated;
          sorted = sortIssuesByPriority filtered;
          selectedIssues = slice0 sorted (maxInlineComments config);
          risk = calculateRiskScore filtered DEFAULT_SCORE_CONFIG
      in \<lparr>inlineComments = selectedIssues, allIssues = filtered, riskScore = risk,
          stats = \<lparr>totalFound = length issues, afterDedup = length deduplicated,
                    afterFiltering = length filtered, selected = length selectedIssues\<rparr>\<rparr>)"

text \<open>A worker configuration with the defaults of config.ts, capped at one inline comment.\<close>

definition sampleWorkerConfig :: WorkerConfig where
  "sampleWorkerConfig =
     \<lparr>maxInlineComments = 1, confidenceThreshold = 1 / 2, enableOsvScan = True,
      osvApiUrl = js ''https://api.osv.dev''\<rparr>"

section \<open>Comment formatter (comment-formatter.ts)\<close>

text \<open>
  \<open>CommentFormatConfig\<close> after the merge with \<open>DEFAULT_COMMENT_CONFIG\<close>. The character
  limits are integers.
\<close>

record CommentFormatConfig =
  maxInlineChars :: int
  maxSummaryChars :: int
  includeEvidence :: bool
  includeFixes :: bool

definition DEFAULT_COMMENT_CONFIG :: CommentFormatConfig where
  "DEFAULT_COMMENT_CONFIG =
     \<lparr>maxInlineChars = 900, maxSummaryChars = 4000, includeEvidence = True, includeFixes = True\<rparr>"

text \<open>The badges are emoji, given here by their UTF-16 code units.\<close>

fun SEVERITY_BADGES :: "IssueSeverity \<Rightarrow> jsstring" where
  "SEVERITY_BADGES Critical = [0xD83D, 0xDD34]"
| "SEVERITY_BADGES High = [0xD83D, 0xDFE0]"
| "SEVERITY_BADGES Medium = [0xD83D, 0xDFE1]"
| "SEVERITY_BADGES Low = [0xD83D, 0xDFE2]"

fun CATEGORY_BADGES :: "IssueCategory \<Rightarrow> jsstring" where
  "CATEGORY_BADGES Security = [0xD83D, 0xDD12]"
| "CATEGORY_BADGES Correctness = [0xD83D, 0xDC1B]"
| "CATEGORY_BADGES Performance = [0x26A1]"
| "CATEGORY_BADGES Maintainability = [0xD83D, 0xDD27]"
| "CATEGORY_BADGES Style = [0x2728]"
| "CATEGORY_BADGES Dependency = [0xD83D, 0xDCE6]"

text \<open>\<open>issue.severity\<close> as a string, and its \<open>toUpperCase()\<close>.\<close>

fun severityString :: "IssueSeverity \<Rightarrow> jsstring" where
  "severityString Low = js ''low''"
| "severityString Medium = js ''medium''"
| "severityString High = js ''high''"
| "severityString Critical = js ''critical''"

fun severityUpper :: "IssueSeverity \<Rightarrow> jsstring" where
  "severityUpper Low = js ''LOW''"
| "severityUpper Medium = js ''MEDIUM''"
| "severityUpper High = js ''HIGH''"
| "severityUpper Critical = js ''CRITICAL''"

text \<open>\<open>parts.join(sep)\<close>.\<close>

fun joinWith :: "'a list \<Rightarrow> 'a list list \<Rightarrow> 'a list" where
  "joinWith sep [] = []"
| "joinWith sep [p] = p"
| "joinWith sep (p # q # ps) = p @ sep @ joinWith sep (q # ps)"

definition truncateText :: "jsstring \<Rightarrow> int \<Rightarrow> jsstring \<Rightarrow> jsstring" where
  "truncateText text maxLength indicator =
     (if int (length text) \<le> maxLength then text
      else slice0 text (maxLength - int (length indicator)) @ indicator)"

definition formatInlineComment :: "Issue \<Rightarrow> CommentFormatConfig \<Rightarrow> jsstring" where
  "formatInlineComment issue cfg =
     (let parts0 =
            [SEVERITY_BADGES (severity issue) @ js '' **'' @ severityUpper (severity issue) @
               js ''** '' @ CATEGORY_BADGES (category issue) @ js '' '' @
               categoryString (category issue) @ js ''/'' @ subtype issue,
             [],
             message issue];
          parts1 =
            (if includeEvidence cfg \<and> length (evidence issue) > 0
             then parts0 @ [[], js ''**Evidence:**'', js ''```'',
                            truncateText (evidence issue) 200 (js ''...''), js ''```'']
             else parts0);
          parts2 =
            (case suggested_fix issue of
               Some fix \<Rightarrow>
                 if includeFixes cfg \<and> length fix > 0
                 then parts1 @ [[], [0xD83D, 0xDCA1] @ js '' **Suggested fix:** '' @ fix]
                 else parts1
             | None \<Rightarrow> parts1);
          tags = (case cwe issue of Some c \<Rightarrow> [c] | None \<Rightarrow> []) @
                 (case owasp_tag issue of Some t \<Rightarrow> [js ''OWASP: '' @ t] | None \<Rightarrow> []);
          parts3 =
            (if length tags > 0
             then parts2 @ [[], [0xD83C, 0xDFF7, 0xFE0F] @ js '' '' @ joinWith (js '' | '') tags]
             else parts2);
          fullComment = joinWith (js [CHR 0x0A]) parts3
      in truncateText fullComment (maxInlineChars cfg) (js ''...''))"

text \<open>The fixture \<open>validIssue\<close> of schemas.test.ts.\<close>

definition validIssue :: Issue where
  "validIssue =
     \<lparr>issue_id = js ''550e8400-e29b-41d4-a716-446655440000'', category = Security,
      subtype = js ''sql-injection'', severity = Critical, confidence = 95 / 100,
      file_path = js ''src/db.ts'', line_start = 42, line_end = 45,
      message = js ''Potential SQL injection vulnerability detected.'',
      evidence = js ''const query = `SELECT * FROM users WHERE id = ${userId}`;'',
      suggested_fix = Some (js ''Use parameterized queries instead.''), patch = None,
      owasp_tag = Some (js ''A03:2021''), cwe = Some (js ''CWE-89''), source_tool = None,
      is_llm_generated = False\<rparr>"

section \<open>Diff model and parser (diff-parser.ts)\<close>

record DiffLine =
  lineNumber :: int
  line_content :: jsstring

record DiffHunk =
  oldStart :: int
  oldCount :: int
  newStart :: int
  newCount :: int
  hunk_content :: jsstring
  addedLines :: "DiffLine list"
  removedLines :: "DiffLine list"

datatype ChangeType = Add | Delete | Modify | Rename

record ModeChange =
  mode_old :: jsstring
  mode_new :: jsstring

record DiffFile =
  oldPath :: "jsstring option"
  newPath :: "jsstring option"
  changeType :: ChangeType
  isBinary :: bool
  modeChange :: "ModeChange option"
  similarity :: "int option"
  hunks :: "DiffHunk list"
  linesAdded :: int
  linesRemoved :: int

record ParsedDiff =
  files :: "DiffFile list"
  totalLinesAdded :: int
  totalLinesRemoved :: int
  totalFilesChanged :: nat

subsection \<open>String primitives\<close>

definition nl :: jschar where
  "nl = 0x0A"

text \<open>\<open>s.split(sep)\<close> for a one-unit separator: never empty, \<open>''.split(sep) = ['']\<close>.\<close>

fun splitOn :: "'a \<Rightarrow> 'a list \<Rightarrow> 'a list list" where
  "splitOn sep [] = [[]]"
| "splitOn sep (c # cs) =
     (if c = sep then [] # splitOn sep cs
      else (case splitOn sep cs of l # ls \<Rightarrow> (c # l) # ls | [] \<Rightarrow> [[c]]))"

definition startsWith :: "'a list \<Rightarrow> 'a list \<Rightarrow> bool" where
  "startsWith s p \<longleftrightarrow> take (length p) s = p"

definition endsWith :: "'a list \<Rightarrow> 'a list \<Rightarrow> bool" where
  "endsWith s p \<longleftrightarrow> length p \<le> length s \<and> drop (length s - length p) s = p"

definition stripPrefix :: "'a list \<Rightarrow> 'a list \<Rightarrow> 'a list option" where
  "stripPrefix p s = (if startsWith s p then Some (drop (length p) s) else None)"

text \<open>
  The regular-expression atoms: \<open>.\<close> matches every code unit but the four line
  terminators, \<open>\d\<close> the ten ASCII digits. \<open>parseInt(ds, 10)\<close> on a digit string.
\<close>

definition isDot :: "jschar \<Rightarrow> bool" where
  "isDot c \<longleftrightarrow> c \<noteq> 0x0A \<and> c \<noteq> 0x0D \<and> c \<noteq> 0x2028 \<and> c \<noteq> 0x2029"

definition isDigit :: "jschar \<Rightarrow> bool" where
  "isDigit c \<longleftrightarrow> 0x30 \<le> c \<and> c \<le> 0x39"

definition parseInt :: "jsstring \<Rightarrow> int" where
  "parseInt ds = foldl (\<lambda>n c. 10 * n + (int (unat c) - 48)) 0 ds"

subsection \<open>The twelve line patterns\<close>

text \<open>
  \<open>splitLast sep pre s\<close>: the split of \<open>pre @ s\<close> at the last occurrence of \<open>sep\<close> inside
  \<open>s\<close> that leaves both sides non-empty: what the greedy \<open>(.+) b/(.+)\<close> selects.
\<close>

fun splitLast :: "jsstring \<Rightarrow> jsstring \<Rightarrow> jsstring \<Rightarrow> (jsstring \<times> jsstring) option" where
  "splitLast sep pre [] = None"
| "splitLast sep pre (c # cs) =
     (case splitLast sep (pre @ [c]) cs of
        Some r \<Rightarrow> Some r
      | None \<Rightarrow>
          if startsWith (c # cs) sep \<and> pre \<noteq> [] \<and> drop (length sep) (c # cs) \<noteq> []
          then Some (pre, drop (length sep) (c # cs)) else None)"

text \<open>\<open>/^diff --git a\/(.+) b\/(.+)$/\<close>\<close>

definition DIFF_HEADER_REGEX :: "jsstring \<Rightarrow> (jsstring \<times> jsstring) option" where
  "DIFF_HEADER_REGEX line =
     (case stripPrefix (js ''diff --git a/'') line of
        None \<Rightarrow> None
      | Some r \<Rightarrow> if list_all isDot r then splitLast (js '' b/'') [] r else None)"

text \<open>\<open>/^<prefix>(?:<opt>)?(.+)$/\<close>: the optional group is taken when something is left for \<open>(.+)\<close>.\<close>

definition matchPath :: "jsstring \<Rightarrow> jsstring \<Rightarrow> jsstring \<Rightarrow> jsstring option" where
  "matchPath prefix opt line =
     (case stripPrefix prefix line of
        None \<Rightarrow> None
      | Some r \<Rightarrow>
          if r = [] \<or> \<not> list_all isDot r then None
          else (case stripPrefix opt r of
                  Some r' \<Rightarrow> if r' \<noteq> [] then Some r' else Some r
                | None \<Rightarrow> Some r))"

definition OLD_FILE_REGEX :: "jsstring \<Rightarrow> jsstring option" where
  "OLD_FILE_REGEX = matchPath (js ''--- '') (js ''a/'')"

definition NEW_FILE_REGEX :: "jsstring \<Rightarrow> jsstring option" where
  "NEW_FILE_REGEX = matchPath (js ''+++ '') (js ''b/'')"

text \<open>\<open>/^<prefix>(.+)$/\<close>\<close>

definition matchRest :: "jsstring \<Rightarrow> jsstring \<Rightarrow> jsstring option" where
  "matchRest prefix line =
     (case stripPrefix prefix line of
        None \<Rightarrow> None
      | Some r \<Rightarrow> if r \<noteq> [] \<and> list_all isDot r then Some r else None)"

definition RENAME_FROM_REGEX :: "jsstring \<Rightarrow> jsstring option" where
  "RENAME_FROM_REGEX = matchRest (js ''rename from '')"

definition RENAME_TO_REGEX :: "jsstring \<Rightarrow> jsstring option" where
  "RENAME_TO_REGEX = matchRest (js ''rename to '')"

text \<open>\<open>/^<prefix>(\d+)<suffix>$/\<close>\<close>

definition matchDigits :: "jsstring \<Rightarrow> jsstring \<Rightarrow> jsstring \<Rightarrow> jsstring option" where
  "matchDigits prefix suffix line =
     (case stripPrefix prefix line of
        None \<Rightarrow> None
      | Some r \<Rightarrow>
          if takeWhile isDigit r \<noteq> [] \<and> dropWhile isDigit r = suffix
          then Some (takeWhile isDigit r) else None)"

definition SIMILARITY_REGEX :: "jsstring \<Rightarrow> jsstring option" where
  "SIMILARITY_REGEX = matchDigits (js ''similarity index '') (js ''%'')"

definition MODE_OLD_REGEX :: "jsstring \<Rightarrow> jsstring option" where
  "MODE_OLD_REGEX = matchDigits (js ''old mode '') []"

definition MODE_NEW_REGEX :: "jsstring \<Rightarrow> jsstring option" where
  "MODE_NEW_REGEX = matchDigits (js ''new mode '') []"

definition NEW_FILE_MODE_REGEX :: "jsstring \<Rightarrow> jsstring option" where
  "NEW_FILE_MODE_REGEX = matchDigits (js ''new file mode '') []"

definition DELETED_FILE_MODE_REGEX :: "jsstring \<Rightarrow> jsstring option" where
  "DELETED_FILE_MODE_REGEX = matchDigits (js ''deleted file mode '') []"

text \<open>\<open>/^Binary files .+ differ$/\<close>\<close>

definition BINARY_REGEX :: "jsstring \<Rightarrow> bool" where
  "BINARY_REGEX line =
     (case stripPrefix (js ''Binary files '') line of
        None \<Rightarrow> False
      | Some r \<Rightarrow>
          list_all isDot r \<and> length r > length (js '' differ'') \<and> endsWith r (js '' differ''))"

text \<open>
  \<open>(?:,(\d+))?\<close>: the group is taken when a comma and a digit follow (what comes after the
  group in the pattern is a space, so skipping it then cannot succeed either).
\<close>

definition optCount :: "jsstring \<Rightarrow> jsstring option \<times> jsstring" where
  "optCount s =
     (case s of
        c # r \<Rightarrow>
          if c = 0x2C \<and> takeWhile isDigit r \<noteq> []
          then (Some (takeWhile isDigit r), dropWhile isDigit r) else (None, s)
      | [] \<Rightarrow> (None, s))"

text \<open>\<open>/^@@ -(\d+)(?:,(\d+))? \+(\d+)(?:,(\d+))? @@/\<close> (no \<open>$\<close>: anything may follow).\<close>

definition HUNK_HEADER_REGEX :: "jsstring \<Rightarrow> (jsstring \<times> jsstring option \<times> jsstring \<times> jsstring option) option" where
  "HUNK_HEADER_REGEX line =
     (case stripPrefix (js ''@@ -'') line of
        None \<Rightarrow> None
      | Some r1 \<Rightarrow>
          if takeWhile isDigit r1 = [] then None
          else (case optCount (dropWhile isDigit r1) of
                  (g2, r2) \<Rightarrow>
                    (case stripPrefix (js '' +'') r2 of
                       None \<Rightarrow> None
                     | Some r3 \<Rightarrow>
                         if takeWhile isDigit r3 = [] then None
                         else (case optCount (dropWhile isDigit r3) of
                                 (g4, r4) \<Rightarrow>
                                   if startsWith r4 (js '' @@'')
                                   then Some (takeWhile isDigit r1, g2, takeWhile isDigit r3, g4)
                                   else None))))"

subsection \<open>The parser loop\<close>

text \<open>
  The mutable locals of \<open>parseDiff\<close>. An object is only mutated while it is the current
  file or hunk and is pushed when it stops being so, hence values suffice.
\<close>

record ParserState =
  ps_files :: "DiffFile list"
  currentFile :: "DiffFile option"
  currentHunk :: "DiffHunk option"
  oldLineNum :: int
  newLineNum :: int
  hunkContent :: "jsstring list"

definition initialParserState :: ParserState where
  "initialParserState =
     \<lparr>ps_files = [], currentFile = None, currentHunk = None, oldLineNum = 0, newLineNum = 0,
      hunkContent = []\<rparr>"

definition finalizeHunk :: "ParserState \<Rightarrow> ParserState" where
  "finalizeHunk st =
     (case (currentHunk st, currentFile st) of
        (Some h, Some f) \<Rightarrow>
          st\<lparr>currentFile :=
                Some (f\<lparr>hunks := hunks f @ [h\<lparr>hunk_content := joinWith [nl] (hunkContent st)\<rparr>]\<rparr>),
             currentHunk := None, hunkContent := []\<rparr>
      | _ \<Rightarrow> st\<lparr>currentHunk := None, hunkContent := []\<rparr>)"

definition finalizeFile :: "ParserState \<Rightarrow> ParserState" where
  "finalizeFile st =
     (let st1 = finalizeHunk st
      in case currentFile st1 of
           Some f \<Rightarrow> st1\<lparr>ps_files := ps_files st1 @ [f], currentFile := None\<rparr>
         | None \<Rightarrow> st1)"

text \<open>The tail of the loop body: the line belongs to the hunk \<open>h\<close> of the file \<open>f\<close>.\<close>

definition hunkLine :: "ParserState \<Rightarrow> DiffFile \<Rightarrow> DiffHunk \<Rightarrow> jsstring \<Rightarrow> ParserState" where
  "hunkLine st f h line =
     (let st1 = st\<lparr>hunkContent := hunkContent st @ [line]\<rparr>
      in if startsWith line (js ''+'') \<and> \<not> startsWith line (js ''+++'') then
           st1\<lparr>currentHunk :=
                 Some (h\<lparr>addedLines := addedLines h @
                          [\<lparr>lineNumber = newLineNum st, line_content = drop 1 line\<rparr>]\<rparr>),
               currentFile := Some (f\<lparr>linesAdded := linesAdded f + 1\<rparr>),
               newLineNum := newLineNum st + 1\<rparr>
         else if startsWith line (js ''-'') \<and> \<not> startsWith line (js ''---'') then
           st1\<lparr>currentHunk :=
                 Some (h\<lparr>removedLines := removedLines h @
                          [\<lparr>lineNumber = oldLineNum st, line_content = drop 1 line\<rparr>]\<rparr>),
               currentFile := Some (f\<lparr>linesRemoved := linesRemoved f + 1\<rparr>),
               oldLineNum := oldLineNum st + 1\<rparr>
         else if startsWith line (js '' '') \<or> line = [] then
           st1\<lparr>oldLineNum := oldLineNum st + 1, newLineNum := newLineNum st + 1\<rparr>
         else st1)"

text \<open>The loop body after the file-header test, with \<open>f\<close> the current file.\<close>

definition fileLine :: "ParserState \<Rightarrow> DiffFile \<Rightarrow> jsstring \<Rightarrow> ParserState" where
  "fileLine st f line =
     (case RENAME_FROM_REGEX line of
        Some p \<Rightarrow> st\<lparr>currentFile := Some (f\<lparr>oldPath := Some p, changeType := Rename\<rparr>)\<rparr>
      | None \<Rightarrow>
     (case RENAME_TO_REGEX line of
        Some p \<Rightarrow> st\<lparr>currentFile := Some (f\<lparr>newPath := Some p, changeType := Rename\<rparr>)\<rparr>
      | None \<Rightarrow>
     (case SIMILARITY_REGEX line of
        Some ds \<Rightarrow> st\<lparr>currentFile := Some (f\<lparr>similarity := Some (parseInt ds)\<rparr>)\<rparr>
      | None \<Rightarrow>
     (if BINARY_REGEX line then st\<lparr>currentFile := Some (f\<lparr>isBinary := True\<rparr>)\<rparr>
      else
     (case MODE_OLD_REGEX line of
        Some ds \<Rightarrow>
          st\<lparr>currentFile := Some (f\<lparr>modeChange := Some \<lparr>mode_old = ds, mode_new = []\<rparr>\<rparr>)\<rparr>
      | None \<Rightarrow>
     (case MODE_NEW_REGEX line of
        Some ds \<Rightarrow>
          (case modeChange f of
             Some mc \<Rightarrow> st\<lparr>currentFile := Some (f\<lparr>modeChange := Some (mc\<lparr>mode_new := ds\<rparr>)\<rparr>)\<rparr>
           | None \<Rightarrow> st)
      | None \<Rightarrow>
     (if NEW_FILE_MODE_REGEX line \<noteq> None
      then st\<lparr>currentFile := Some (f\<lparr>changeType := Add, oldPath := None\<rparr>)\<rparr>
      else if DELETED_FILE_MODE_REGEX line \<noteq> None
      then st\<lparr>currentFile := Some (f\<lparr>changeType := Delete, newPath := None\<rparr>)\<rparr>
      else
     (case OLD_FILE_REGEX line of
        Some path \<Rightarrow>
          if path = js ''/dev/null''
          then st\<lparr>currentFile := Some (f\<lparr>oldPath := None, changeType := Add\<rparr>)\<rparr>
          else st\<lparr>currentFile := Some (f\<lparr>oldPath := Some path\<rparr>)\<rparr>
      | None \<Rightarrow>
     (case NEW_FILE_REGEX line of
        Some path \<Rightarrow>
          if path = js ''/dev/null''
          then st\<lparr>currentFile := Some (f\<lparr>newPath := None, changeType := Delete\<rparr>)\<rparr>
          else st\<lparr>currentFile := Some (f\<lparr>newPath := Some path\<rparr>)\<rparr>
      | None \<Rightarrow>
     (case HUNK_HEADER_REGEX line of
        Some (g1, g2, g3, g4) \<Rightarrow>
          (finalizeHunk st)
            \<lparr>oldLineNum := parseInt g1, newLineNum := parseInt g3,
             currentHunk :=
               Some \<lparr>oldStart = parseInt g1,
                     oldCount = (case g2 of Some ds \<Rightarrow> parseInt ds | None \<Rightarrow> 1),
                     newStart = parseInt g3,
                     newCount = (case g4 of Some ds \<Rightarrow> parseInt ds | None \<Rightarrow> 1),
                     hunk_content = [], addedLines = [], removedLines = []\<rparr>,
             hunkContent := [line]\<rparr>
      | None \<Rightarrow>
     (case currentHunk st of
        Some h \<Rightarrow> hunkLine st f h line
      | None \<Rightarrow> st)))))))))))"

text \<open>One iteration: the file-header test, then \<open>if (currentFile === null) continue\<close>.\<close>

definition parseLine :: "ParserState \<Rightarrow> jsstring \<Rightarrow> ParserState" where
  "parseLine st line =
     (case DIFF_HEADER_REGEX line of
        Some (p1, p2) \<Rightarrow>
          (finalizeFile st)
            \<lparr>currentFile :=
               Some \<lparr>oldPath = Some p1, newPath = Some p2, changeType = Modify, isBinary = False,
                     modeChange = None, similarity = None, hunks = [], linesAdded = 0,
                     linesRemoved = 0\<rparr>\<rparr>
      | None \<Rightarrow>
          (case currentFile st of
             None \<Rightarrow> st
           | Some f \<Rightarrow> fileLine st f line))"

text \<open>
  \<open>parseDiff\<close> contains no \<open>throw\<close> and calls nothing that throws on a string. Its result
  type nevertheless keeps an error alternative, named as the specification names it, so
  that statements about failure can be written down.
\<close>

datatype DiffError = MalformedDiff

definition parseDiff :: "jsstring \<Rightarrow> DiffError + ParsedDiff" where
  "parseDiff diffContent =
     (let st = finalizeFile (foldl parseLine initialParserState (splitOn nl diffContent));
          fs = ps_files st
      in Inr \<lparr>files = fs,
              totalLinesAdded = foldl (\<lambda>sum f. sum + linesAdded f) 0 fs,
              totalLinesRemoved = foldl (\<lambda>sum f. sum + linesRemoved f) 0 fs,
              totalFilesChanged = length fs\<rparr>)"

definition getFilePath :: "DiffFile \<Rightarrow> jsstring" where
  "getFilePath file =
     (case newPath file of
        Some p \<Rightarrow> p
      | None \<Rightarrow> (case oldPath file of Some p \<Rightarrow> p | None \<Rightarrow> []))"

text \<open>The fixture \<open>SAMPLE_DIFF\<close> of diff-parser.test.ts.\<close>

definition SAMPLE_DIFF :: jsstring where
  "SAMPLE_DIFF = js (''diff --git a/src/utils.ts b/src/utils.ts\<newline>index 1234567..abcdefg 100644\<newline>--- a/src/utils.ts\<newline>+++ b/src/utils.ts\<newline>@@ -10,6 +10,8 @@ export function helper() {\<newline>   const a = 1;\<newline>   const b = 2;\<newline>+  const c = 3;\<newline>+  const d = 4;\<newline>   return a + b;\<newline> }\<newline> \<newline>@@ -20,4 +22,3 @@ export function another() {\<newline>   console.log('' @ [CHR 0x22] @ ''hello'' @ [CHR 0x22] @ '');\<newline>-  console.log('' @ [CHR 0x22] @ ''removed'' @ [CHR 0x22] @ '');\<newline> }\<newline>'')"

section \<open>Chunker (chunker.ts)\<close>

text \<open>\<open>ChunkConfig\<close> after the merge \<open>{ ...DEFAULT_CHUNK_CONFIG, ...config }\<close>.\<close>

record ChunkConfig =
  maxTokens :: int
  overlapTokens :: int
  maxFilesPerChunk :: int
  keepFilesTogether :: bool

definition DEFAULT_CHUNK_CONFIG :: ChunkConfig where
  "DEFAULT_CHUNK_CONFIG =
     \<lparr>maxTokens = 4000, overlapTokens = 200, maxFilesPerChunk = 5, keepFilesTogether = True\<rparr>"

record DiffChunk =
  chunk_index :: nat
  totalChunks :: nat
  chunk_files :: "DiffFile list"
  filePaths :: "jsstring list"
  chunk_content :: jsstring
  estimatedTokens :: nat
  languages :: "jsstring list"

text \<open>\<open>Math.ceil(text.length / 4)\<close>\<close>

definition estimateTokens :: "jsstring \<Rightarrow> nat" where
  "estimateTokens text = (length text + 3) div 4"

fun changeTypeString :: "ChangeType \<Rightarrow> jsstring" where
  "changeTypeString Add = js ''add''"
| "changeTypeString Delete = js ''delete''"
| "changeTypeString Modify = js ''modify''"
| "changeTypeString Rename = js ''rename''"

definition formatDiffFileForLLM :: "DiffFile \<Rightarrow> jsstring" where
  "formatDiffFileForLLM file =
     (let path = getFilePath file;
          lines0 =
            [js ''## File: '' @ path,
             js ''Type: '' @ changeTypeString (changeType file) @ js '' | +'' @
               numToString (linesAdded file) @ js '' -'' @ numToString (linesRemoved file)]
      in if isBinary file then joinWith [nl] (lines0 @ [js ''(Binary file)''])
         else
           (let lines1 =
                  (case similarity file of
                     Some sim \<Rightarrow>
                       if changeType file = Rename
                       then lines0 @
                            [js ''Renamed from: '' @
                             (case oldPath file of Some p \<Rightarrow> p | None \<Rightarrow> js ''unknown'') @
                             js '' ('' @ numToString sim @ js ''% similar)'']
                       else lines0
                   | None \<Rightarrow> lines0)
            in joinWith [nl] (lines1 @ [js ''```diff''] @ map hunk_content (hunks file) @ [js ''```''])))"

text \<open>
  \<open>detectLanguage\<close>: the text after the last dot, lower-cased, looked up in \<open>langMap\<close>.
  \<open>lowerUnit\<close> is \<open>toLowerCase\<close> on every code unit whose lower-casing can occur in a key
  of \<open>langMap\<close> (the ASCII capitals and the Kelvin sign); keys that a JavaScript object
  inherits from its prototype are outside the model.
\<close>

definition lowerUnit :: "jschar \<Rightarrow> jschar" where
  "lowerUnit c =
     (if 0x41 \<le> c \<and> c \<le> 0x5A then c + 0x20 else if c = 0x212A then 0x6B else c)"

definition langMap :: "(jsstring \<times> jsstring) list" where
  "langMap =
     [(js ''ts'', js ''typescript''), (js ''tsx'', js ''typescript''),
      (js ''js'', js ''javascript''), (js ''jsx'', js ''javascript''),
      (js ''py'', js ''python''), (js ''go'', js ''go''), (js ''rs'', js ''rust''),
      (js ''java'', js ''java''), (js ''rb'', js ''ruby''), (js ''php'', js ''php''),
      (js ''cs'', js ''csharp''), (js ''cpp'', js ''cpp''), (js ''c'', js ''c''),
      (js ''swift'', js ''swift''), (js ''kt'', js ''kotlin'')]"

definition detectLanguage :: "jsstring \<Rightarrow> jsstring option" where
  "detectLanguage filePath = map_of langMap (map lowerUnit (last (splitOn 0x2E filePath)))"

text \<open>\<open>languages\<close> is a \<open>Set\<close>: \<open>add\<close> keeps the first occurrence, in insertion order.\<close>

definition set_add :: "'a list \<Rightarrow> 'a \<Rightarrow> 'a list" where
  "set_add s x = (if x \<in> set s then s else s @ [x])"

definition chunkLanguages :: "DiffFile list \<Rightarrow> jsstring list" where
  "chunkLanguages fs =
     foldl (\<lambda>langs file.
              case detectLanguage (getFilePath file) of
                Some lang \<Rightarrow> set_add langs lang
              | None \<Rightarrow> langs) [] fs"

text \<open>The mutable locals of \<open>chunkDiff\<close>.\<close>

record ChunkState =
  chunks :: "DiffChunk list"
  currentFiles :: "DiffFile list"
  currentContent :: "jsstring list"
  currentTokens :: nat

definition createChunk :: "ChunkState \<Rightarrow> ChunkState" where
  "createChunk st =
     (if length (currentFiles st) = 0 then st
      else
        (let content = joinWith [nl, nl] (currentContent st)
         in \<lparr>chunks = chunks st @
                 [\<lparr>chunk_index = length (chunks st), totalChunks = 0,
                   chunk_files = currentFiles st,
                   filePaths = map getFilePath (currentFiles st),
                   chunk_content = content,
                   estimatedTokens = estimateTokens content,
                   languages = chunkLanguages (currentFiles st)\<rparr>],
             currentFiles = [], currentContent = [], currentTokens = 0\<rparr>))"

text \<open>One iteration of the loop over \<open>diff.files\<close>.\<close>

definition chunkStep :: "ChunkConfig \<Rightarrow> ChunkState \<Rightarrow> DiffFile \<Rightarrow> ChunkState" where
  "chunkStep cfg st file =
     (let fileContent = formatDiffFileForLLM file;
          fileTokens = estimateTokens fileContent;
          st1 = (if int fileTokens > maxTokens cfg \<and> length (currentFiles st) > 0
                 then createChunk st else st);
          wouldExceedTokens = int (currentTokens st1 + fileTokens) > maxTokens cfg;
          wouldExceedFiles = int (length (currentFiles st1)) \<ge> maxFilesPerChunk cfg;
          st2 = (if wouldExceedTokens \<or> wouldExceedFiles then createChunk st1 else st1)
      in st2\<lparr>currentFiles := currentFiles st2 @ [file],
             currentContent := currentContent st2 @ [fileContent],
             currentTokens := currentTokens st2 + fileTokens\<rparr>)"

definition chunkDiff :: "ParsedDiff \<Rightarrow> ChunkConfig \<Rightarrow> DiffChunk list" where
  "chunkDiff diff cfg =
     (if length (files diff) = 0 then []
      else
        (let st = createChunk
                    (foldl (chunkStep cfg)
                       \<lparr>chunks = [], currentFiles = [], currentContent = [], currentTokens = 0\<rparr>
                       (files diff))
         in map (\<lambda>chunk. chunk\<lparr>totalChunks := length (chunks st)\<rparr>) (chunks st)))"

text \<open>A modified text file without hunks, as the fixtures of diff-parser.test.ts build them.\<close>

definition plainFile :: "jsstring \<Rightarrow> DiffFile" where
  "plainFile p =
     \<lparr>oldPath = Some p, newPath = Some p, changeType = Modify, isBinary = False,
      modeChange = None, similarity = None, hunks = [], linesAdded = 0, linesRemoved = 0\<rparr>"

definition diffOf :: "DiffFile list \<Rightarrow> ParsedDiff" where
  "diffOf fs =
     \<lparr>files = fs, totalLinesAdded = foldl (\<lambda>sum f. sum + linesAdded f) 0 fs,
      totalLinesRemoved = foldl (\<lambda>sum f. sum + linesRemoved f) 0 fs,
      totalFilesChanged = length fs\<rparr>"

section \<open>Webhook signature middleware (middleware/signature.ts)\<close>

type_synonym byte = "8 word"

text \<open>
  \<open>Buffer.from(s)\<close>: the UTF-8 encoding of a UTF-16 string; a surrogate pair becomes one
  four-byte sequence, a lone surrogate the replacement character U+FFFD.
\<close>

definition byteOf :: "nat \<Rightarrow> byte" where
  "byteOf k = of_nat k"

definition replacementChar :: "byte list" where
  "replacementChar = [0xEF, 0xBF, 0xBD]"

definition isHighSurrogate :: "nat \<Rightarrow> bool" where
  "isHighSurrogate n \<longleftrightarrow> 0xD800 \<le> n \<and> n < 0xDC00"

definition isLowSurrogate :: "nat \<Rightarrow> bool" where
  "isLowSurrogate n \<longleftrightarrow> 0xDC00 \<le> n \<and> n < 0xE000"

definition utf8Three :: "nat \<Rightarrow> byte list" where
  "utf8Three n =
     [byteOf (0xE0 + n div 4096), byteOf (0x80 + n div 64 mod 64), byteOf (0x80 + n mod 64)]"

definition utf8Four :: "nat \<Rightarrow> byte list" where
  "utf8Four cp =
     [byteOf (0xF0 + cp div 262144), byteOf (0x80 + cp div 4096 mod 64),
      byteOf (0x80 + cp div 64 mod 64), byteOf (0x80 + cp mod 64)]"

fun utf8Encode :: "jsstring \<Rightarrow> byte list" where
  "utf8Encode [] = []"
| "utf8Encode [c] =
     (let n = unat c
      in if n < 0x80 then [byteOf n]
         else if n < 0x800 then [byteOf (0xC0 + n div 64), byteOf (0x80 + n mod 64)]
         else if isHighSurrogate n \<or> isLowSurrogate n then replacementChar
         else utf8Three n)"
| "utf8Encode (c # d # ds) =
     (let n = unat c
      in if n < 0x80 then byteOf n # utf8Encode (d # ds)
         else if n < 0x800
         then byteOf (0xC0 + n div 64) # byteOf (0x80 + n mod 64) # utf8Encode (d # ds)
         else if isHighSurrogate n \<and> isLowSurrogate (unat d)
         then utf8Four (0x10000 + (n - 0xD800) * 0x400 + (unat d - 0xDC00)) @ utf8Encode ds
         else if isHighSurrogate n \<or> isLowSurrogate n
         then replacementChar @ utf8Encode (d # ds)
         else utf8Three n @ utf8Encode (d # ds))"

text \<open>
  \<open>crypto.timingSafeEqual(a, b)\<close> throws a \<open>RangeError\<close> when the byte lengths differ and
  compares the contents otherwise.
\<close>

datatype JsError = RangeError

definition timingSafeEqual :: "byte list \<Rightarrow> byte list \<Rightarrow> JsError + bool" where
  "timingSafeEqual a b = (if length a \<noteq> length b then Inl RangeError else Inr (a = b))"

text \<open>\<open>digest('hex')\<close>: two lower-case hexadecimal digits per byte.\<close>

definition hexDigit :: "nat \<Rightarrow> jschar" where
  "hexDigit d = (if d < 10 then of_nat (48 + d) else of_nat (87 + d))"

definition hexOf :: "byte list \<Rightarrow> jsstring" where
  "hexOf bs = concat (map (\<lambda>b. [hexDigit (unat b div 16), hexDigit (unat b mod 16)]) bs)"

text \<open>
  HMAC-SHA256 is the platform's (\<open>node:crypto\<close>); it is a parameter \<open>hmac key message\<close> of
  the model, from the key bytes and the message bytes to the digest bytes. The \<open>try\<close> /
  \<open>catch\<close> turns the exception of \<open>timingSafeEqual\<close> into \<open>false\<close>.
\<close>

definition expectedSignature :: "(byte list \<Rightarrow> byte list \<Rightarrow> byte list) \<Rightarrow> jsstring \<Rightarrow> jsstring \<Rightarrow> jsstring" where
  "expectedSignature hmac payload secret =
     js ''sha256='' @ hexOf (hmac (utf8Encode secret) (utf8Encode payload))"

definition verifySignature :: "(byte list \<Rightarrow> byte list \<Rightarrow> byte list) \<Rightarrow> jsstring \<Rightarrow> jsstring \<Rightarrow> jsstring \<Rightarrow> bool" where
  "verifySignature hmac payload signature secret =
     (case timingSafeEqual (utf8Encode signature)
             (utf8Encode (expectedSignature hmac payload secret)) of
        Inr b \<Rightarrow> b
      | Inl e \<Rightarrow> False)"

text \<open>
  What the middleware reads of the request: the \<open>x-hub-signature-256\<close> header (absent, a
  string, or an array of strings) and the raw body (\<open>None\<close> when \<open>rawBody\<close> is undefined or
  not a string). Its outcome is either a response, with status and error text, or the call
  of \<open>next()\<close>; logging is left out.
\<close>

datatype HeaderValue = HeaderUndefined | HeaderString jsstring | HeaderArray "jsstring list"

record WebhookRequest =
  signatureHeader :: HeaderValue
  rawBody :: "jsstring option"

datatype MiddlewareOutcome = Respond nat jsstring | Next

definition signatureMiddleware :: "(byte list \<Rightarrow> byte list \<Rightarrow> byte list) \<Rightarrow> jsstring \<Rightarrow> WebhookRequest \<Rightarrow> MiddlewareOutcome" where
  "signatureMiddleware hmac webhookSecret req =
     (case signatureHeader req of
        HeaderString signature \<Rightarrow>
          (case rawBody req of
             None \<Rightarrow> Respond 500 (js ''Internal server error'')
           | Some body \<Rightarrow>
               if \<not> verifySignature hmac body signature webhookSecret
               then Respond 401 (js ''Invalid signature'')
               else Next)
      | _ \<Rightarrow> Respond 401 (js ''Missing signature header''))"

text \<open>A stand-in digest function for concrete evaluations: the constant digest \<open>de ad\<close>.\<close>

definition sampleHmac :: "byte list \<Rightarrow> byte list \<Rightarrow> byte list" where
  "sampleHmac key msg = [0xDE, 0xAD]"

text \<open>ASCII strings and ASCII bytes, for the proof that the byte comparison decides string equality.\<close>

definition isAscii :: "jsstring \<Rightarrow> bool" where
  "isAscii s \<longleftrightarrow> list_all (\<lambda>c. unat c < 0x80) s"

definition asciiByte :: "byte \<Rightarrow> bool" where
  "asciiByte b \<longleftrightarrow> unat b < 128"

section \<open>Vulnerability scanner (tools/osv.ts)\<close>

text \<open>An entry of \<open>severity\<close>; its \<open>score\<close> may be missing from the service's JSON.\<close>

record OsvSeverity =
  osv_type :: jsstring
  osv_score :: "jsstring option"

text \<open>
  Of \<open>OsvVulnerability\<close>, the fields the scanner reads. The values come from
  \<open>response.json()\<close> through an unchecked cast, so a field that the interface declares as
  a string may be missing from what the service sent: \<open>None\<close> is \<open>undefined\<close>. (Values of
  another JSON type than the declared one are outside the model.)
\<close>

record OsvVulnerability =
  vuln_id :: "jsstring option"
  summary :: "jsstring option"
  details :: "jsstring option"
  osv_severity :: "OsvSeverity list option"

text \<open>A possibly undefined string inside a template literal.\<close>

definition templateString :: "jsstring option \<Rightarrow> jsstring" where
  "templateString v = (case v of None \<Rightarrow> js ''undefined'' | Some t \<Rightarrow> t)"

text \<open>\<open>vuln.details.slice(0, 200)\<close> on an undefined \<open>details\<close> throws a \<open>TypeError\<close>.\<close>

datatype ScanError = TypeError

datatype Ecosystem = Npm | PyPI | Go

record PackageDependency =
  dep_name :: jsstring
  dep_version :: jsstring
  ecosystem :: Ecosystem

text \<open>
  The value of \<open>parseFloat\<close>: a finite number, an infinity, or NaN; \<open>x >= r\<close> is false on NaN.
\<close>

datatype JsNumber = NaN | Finite real | PosInfinity | NegInfinity

fun numGe :: "JsNumber \<Rightarrow> real \<Rightarrow> bool" where
  "numGe NaN r = False"
| "numGe (Finite x) r = (x \<ge> r)"
| "numGe PosInfinity r = True"
| "numGe NegInfinity r = False"

text \<open>
  What the scanner takes from outside: the three manifest parsers (the scanner only
  consumes the dependencies they return), the answer of the vulnerability service to the
  query for a package (\<open>queryOsv\<close>, the empty list on any failure), \<open>parseFloat\<close>, and the
  UUID that the \<open>n\<close>-th call of \<open>crypto.randomUUID\<close> returns.
\<close>

record ScanEnv =
  parsePackageJson :: "jsstring \<Rightarrow> PackageDependency list"
  parseRequirements :: "jsstring \<Rightarrow> PackageDependency list"
  parseGoMod :: "jsstring \<Rightarrow> PackageDependency list"
  queryOsv :: "jsstring \<Rightarrow> PackageDependency \<Rightarrow> OsvVulnerability list"
  parseFloat :: "jsstring \<Rightarrow> JsNumber"
  randomUUID :: "nat \<Rightarrow> jsstring"

text \<open>\<open>parseFloat\<close> of a possibly undefined argument: \<open>parseFloat(undefined)\<close> is NaN.\<close>

definition parseFloatArg :: "(jsstring \<Rightarrow> JsNumber) \<Rightarrow> jsstring option \<Rightarrow> JsNumber" where
  "parseFloatArg pf arg = (case arg of None \<Rightarrow> NaN | Some t \<Rightarrow> pf t)"

definition mapOsvSeverity :: "(jsstring \<Rightarrow> JsNumber) \<Rightarrow> 'a OsvVulnerability_scheme \<Rightarrow> IssueSeverity" where
  "mapOsvSeverity pf vuln =
     (case (case osv_severity vuln of Some (s # rest) \<Rightarrow> Some s | _ \<Rightarrow> None) of
        None \<Rightarrow> Medium
      | Some sev \<Rightarrow>
          (let sc = parseFloatArg pf (osv_score sev)
           in if numGe sc 9 then Critical
              else if numGe sc 7 then High
              else if numGe sc 4 then Medium
              else Low))"

text \<open>\<open>s.includes(sub)\<close> (\<open>includes\<close> is reserved in Isabelle).\<close>

fun includesStr :: "'a list \<Rightarrow> 'a list \<Rightarrow> bool" where
  "includesStr [] sub = (sub = [])"
| "includesStr (c # cs) sub = (startsWith (c # cs) sub \<or> includesStr cs sub)"

text \<open>The choice of the parser by file name.\<close>

definition lockfileDeps :: "ScanEnv \<Rightarrow> jsstring \<Rightarrow> jsstring \<Rightarrow> PackageDependency list" where
  "lockfileDeps env lockfileContent lockfilePath =
     (let filename = last (splitOn 0x2F lockfilePath)
      in if filename = js ''package.json'' \<or> includesStr filename (js ''package-lock'')
            \<or> includesStr filename (js ''pnpm-lock'')
         then parsePackageJson env lockfileContent
         else if filename = js ''requirements.txt'' \<or> filename = js ''pyproject.toml''
         then parseRequirements env lockfileContent
         else if filename = js ''go.mod'' then parseGoMod env lockfileContent
         else [])"

text \<open>
  The state of the scan: the issues pushed so far, the packages queried so far (the
  requests sent to the service), the number of UUIDs drawn, and the exception that ended
  the scan, if any.
\<close>

record ScanState =
  scan_issues :: "Issue list"
  scan_queried :: "PackageDependency list"
  uuid_count :: nat
  scan_thrown :: "ScanError option"

text \<open>
  The object literal pushed for one vulnerability; its properties are evaluated in order,
  the last one to read the vulnerability is \<open>evidence\<close>.
\<close>

definition vulnIssue :: "ScanEnv \<Rightarrow> jsstring \<Rightarrow> PackageDependency \<Rightarrow> nat \<Rightarrow> OsvVulnerability \<Rightarrow> ScanError + Issue" where
  "vulnIssue env lockfilePath dep n vuln =
     (case details vuln of
        None \<Rightarrow> Inl TypeError
      | Some d \<Rightarrow>
          Inr \<lparr>issue_id = randomUUID env n, category = Dependency, subtype = js ''cve'',
               severity = mapOsvSeverity (parseFloat env) vuln, confidence = 95 / 100,
               file_path = lockfilePath, line_start = 1, line_end = 1,
               message = js ''**'' @ templateString (vuln_id vuln) @ js ''**: '' @
                         templateString (summary vuln) @ js '' ('' @
                         dep_name dep @ js ''@'' @ dep_version dep @ js '')'',
               evidence = slice0 d 200,
               suggested_fix = None, patch = None, owasp_tag = None, cwe = None,
               source_tool = Some (js ''osv''), is_llm_generated = False\<rparr>)"

text \<open>The inner loop over the vulnerabilities of one package; an exception ends it.\<close>

fun pushVulns :: "ScanEnv \<Rightarrow> jsstring \<Rightarrow> PackageDependency \<Rightarrow> OsvVulnerability list \<Rightarrow> ScanState \<Rightarrow> ScanState" where
  "pushVulns env lockfilePath dep [] st = st"
| "pushVulns env lockfilePath dep (vuln # vulns) st =
     (case vulnIssue env lockfilePath dep (uuid_count st) vuln of
        Inl e \<Rightarrow> st\<lparr>uuid_count := uuid_count st + 1, scan_thrown := Some e\<rparr>
      | Inr issue \<Rightarrow>
          pushVulns env lockfilePath dep vulns
            (st\<lparr>scan_issues := scan_issues st @ [issue], uuid_count := uuid_count st + 1\<rparr>))"

text \<open>The outer loop over \<open>deps.slice(0, 50)\<close>; an exception of the inner loop ends it.\<close>

fun scanLoop :: "ScanEnv \<Rightarrow> 'a WorkerConfig_scheme \<Rightarrow> jsstring \<Rightarrow> PackageDependency list \<Rightarrow> ScanState \<Rightarrow> ScanState" where
  "scanLoop env config lockfilePath [] st = st"
| "scanLoop env config lockfilePath (dep # deps) st =
     (let st1 = pushVulns env lockfilePath dep (queryOsv env (osvApiUrl config) dep)
                  (st\<lparr>scan_queried := scan_queried st @ [dep]\<rparr>)
      in case scan_thrown st1 of
           Some e \<Rightarrow> st1
         | None \<Rightarrow> scanLoop env config lockfilePath deps st1)"

definition scanDependenciesRun :: "ScanEnv \<Rightarrow> jsstring \<Rightarrow> jsstring \<Rightarrow> 'a WorkerConfig_scheme \<Rightarrow> ScanState" where
  "scanDependenciesRun env lockfileContent lockfilePath config =
     (if \<not> enableOsvScan config
      then \<lparr>scan_issues = [], scan_queried = [], uuid_count = 0, scan_thrown = None\<rparr>
      else scanLoop env config lockfilePath
             (slice0 (lockfileDeps env lockfileContent lockfilePath) 50)
             \<lparr>scan_issues = [], scan_queried = [], uuid_count = 0, scan_thrown = None\<rparr>)"

text \<open>The promise of \<open>scanDependencies\<close>: rejected with the exception, or resolved with the issues.\<close>

definition scanDependencies :: "ScanEnv \<Rightarrow> jsstring \<Rightarrow> jsstring \<Rightarrow> 'a WorkerConfig_scheme \<Rightarrow> ScanError + Issue list" where
  "scanDependencies env lockfileContent lockfilePath config =
     (let st = scanDependenciesRun env lockfileContent lockfilePath config
      in case scan_thrown st of Some e \<Rightarrow> Inl e | None \<Rightarrow> Inr (scan_issues st))"

text \<open>
  A concrete environment (spec scenario 2): a manifest declaring \<open>lodash@4.17.11\<close> and a
  service that reports one advisory with a CVSS score of 7.4 for it.
\<close>

definition lodash :: PackageDependency where
  "lodash = \<lparr>dep_name = js ''lodash'', dep_version = js ''4.17.11'', ecosystem = Npm\<rparr>"

definition lodashAdvisory :: OsvVulnerability where
  "lodashAdvisory =
     \<lparr>vuln_id = Some (js ''GHSA-jf85-cpcp-j695''),
      summary = Some (js ''Prototype Pollution in lodash''),
      details = Some (js ''Versions of lodash before 4.17.12 are vulnerable to Prototype Pollution.''),
      osv_severity = Some [\<lparr>osv_type = js ''CVSS_V3'', osv_score = Some (js ''7.4'')\<rparr>]\<rparr>"

definition sampleScanEnv :: ScanEnv where
  "sampleScanEnv =
     \<lparr>parsePackageJson = (\<lambda>content. [lodash]), parseRequirements = (\<lambda>content. []),
      parseGoMod = (\<lambda>content. []),
      queryOsv = (\<lambda>url dep. if dep = lodash then [lodashAdvisory] else []),
      parseFloat = (\<lambda>s. if s = js ''7.4'' then Finite (74 / 10) else NaN),
      randomUUID = (\<lambda>n. js ''00000000-0000-4000-8000-000000000000'')\<rparr>"

text \<open>The same service, answering with the advisory stripped of its \<open>details\<close>.\<close>

definition bareScanEnv :: ScanEnv where
  "bareScanEnv =
     sampleScanEnv\<lparr>queryOsv := (\<lambda>url dep. [lodashAdvisory\<lparr>details := None\<rparr>])\<rparr>"

text \<open>The fields of an issue that the mapping of a vulnerability fixes.\<close>

definition mappedFields :: "Issue \<Rightarrow> IssueCategory \<times> real \<times> int \<times> int \<times> jsstring \<times> jsstring \<times> IssueSeverity" where
  "mappedFields i =
     (category i, confidence i, line_start i, line_end i, evidence i, message i, severity i)"

text \<open>
  The same fields as the claim gives them, for a vulnerability that carries id, summary
  and details.
\<close>

definition claimedFields :: "ScanEnv \<Rightarrow> PackageDependency \<Rightarrow> OsvVulnerability \<Rightarrow> IssueCategory \<times> real \<times> int \<times> int \<times> jsstring \<times> jsstring \<times> IssueSeverity" where
  "claimedFields env dep v =
     (Dependency, 95 / 100, 1, 1, take 200 (the (details v)),
      js ''**'' @ the (vuln_id v) @ js ''**: '' @ the (summary v) @ js '' ('' @ dep_name dep @
        js ''@'' @ dep_version dep @ js '')'',
      (case osv_severity v of
         None \<Rightarrow> Medium
       | Some [] \<Rightarrow> Medium
       | Some (s # rest) \<Rightarrow>
           if numGe (parseFloatArg (parseFloat env) (osv_score s)) 9 then Critical
           else if numGe (parseFloatArg (parseFloat env) (osv_score s)) 7 then High
           else if numGe (parseFloatArg (parseFloat env) (osv_score s)) 4 then Medium
           else Low))"

definition conforming :: "OsvVulnerability \<Rightarrow> bool" where
  "conforming v \<longleftrightarrow> vuln_id v \<noteq> None \<and> summary v \<noteq> None \<and> details v \<noteq> None"

section \<open>Auxiliary notions used in the proofs\<close>

text \<open>The contribution of one issue to the raw score of its category.\<close>

definition contrib :: "ScoreConfig \<Rightarrow> IssueCategory \<Rightarrow> Issue \<Rightarrow> real" where
  "contrib cfg c i = sevWeights cfg (severity i) * confidence i * catWeights cfg c"

definition groupsTotal :: "ScoreConfig \<Rightarrow> (IssueCategory \<times> Issue list) list \<Rightarrow> real" where
  "groupsTotal cfg g = sum_list (map (\<lambda>(c, xs). sum_list (map (contrib cfg c) xs)) g)"

definition mkBreakdown :: "ScoreConfig \<Rightarrow> IssueCategory \<times> Issue list \<Rightarrow> CategoryBreakdown" where
  "mkBreakdown cfg = (\<lambda>(c, xs).
      \<lparr>cb_category = c, cb_count = length xs,
        max_severity = snd (scoreIssues cfg c xs (0, Low)),
        score_contribution =
          real_of_int (Math_round (fst (scoreIssues cfg c xs (0, Low)) * 10)) / 10\<rparr>)"

text \<open>The final score as a function of the raw score.\<close>

definition scoreOfRaw :: "ScoreConfig \<Rightarrow> real \<Rightarrow> int" where
  "scoreOfRaw cfg t =
     min 100 (Math_round (min 100 (min 100
       (t / (maxExpectedIssues cfg * SEVERITY_WEIGHTS Critical * CATEGORY_WEIGHTS Security) * 100)
         * (11 / 10))))"

text \<open>What the grouping loop maintains: one entry per category seen, holding its issues in order.\<close>

definition groupsInv :: "(IssueCategory \<times> Issue list) list \<Rightarrow> Issue list \<Rightarrow> bool" where
  "groupsInv g xs \<longleftrightarrow>
     distinct (map fst g) \<and>
     (\<forall>(c, ys) \<in> set g. ys = filter (\<lambda>i. category i = c) xs \<and> ys \<noteq> []) \<and>
     (\<forall>i \<in> set xs. category i \<in> fst ` set g)"

text \<open>What the deduplication loop maintains: distinct keys, each the key of its value.\<close>

definition seenInv :: "(jsstring \<times> Issue) list \<Rightarrow> bool" where
  "seenInv s \<longleftrightarrow> distinct (map fst s) \<and> (\<forall>(k, v) \<in> set s. k = createDedupeKey v)"

text \<open>The rank the replacement policy compares: severity first, then confidence.\<close>

definition rankLess :: "Issue \<Rightarrow> Issue \<Rightarrow> bool" where
  "rankLess a b \<longleftrightarrow>
     severityOrder (severity a) < severityOrder (severity b) \<or>
     (severityOrder (severity a) = severityOrder (severity b) \<and> confidence a < confidence b)"

text \<open>An issue is covered when its key is present with a value that does not rank below it.\<close>

definition covered :: "(jsstring \<times> Issue) list \<Rightarrow> Issue \<Rightarrow> bool" where
  "covered s x \<longleftrightarrow> (\<exists>y. map_of s (createDedupeKey x) = Some y \<and> \<not> rankLess y x)"

section \<open>Auxiliary notions for the chunker and the parser\<close>

text \<open>The files the chunking loop has taken so far: those of the finished chunks, then the batch.\<close>

definition chunkedFiles :: "ChunkState \<Rightarrow> DiffFile list" where
  "chunkedFiles st = concat (map chunk_files (chunks st)) @ currentFiles st"

text \<open>
  A modified file with a single hunk holding one context line of \<open>n + 1\<close> code units; its
  formatted text has \<open>56 + length p + n\<close> code units.
\<close>

definition contextFile :: "jsstring \<Rightarrow> nat \<Rightarrow> DiffFile" where
  "contextFile p n =
     \<lparr>oldPath = Some p, newPath = Some p, changeType = Modify, isBinary = False,
      modeChange = None, similarity = None,
      hunks = [\<lparr>oldStart = 1, oldCount = 1, newStart = 1, newCount = 1,
                hunk_content = js ''@@ -1 +1 @@'' @ [nl, 0x20] @ replicate n 0x78,
                addedLines = [], removedLines = []\<rparr>],
      linesAdded = 0, linesRemoved = 0\<rparr>"

text \<open>What the token budget of the chunking loop is checked against: per-file estimates.\<close>

definition fileTokens :: "DiffFile \<Rightarrow> nat" where
  "fileTokens f = estimateTokens (formatDiffFileForLLM f)"

definition sumTokens :: "DiffFile list \<Rightarrow> nat" where
  "sumTokens fs = sum_list (map fileTokens fs)"

definition chunkOk :: "ChunkConfig \<Rightarrow> DiffChunk \<Rightarrow> bool" where
  "chunkOk cfg c \<longleftrightarrow>
     chunk_files c \<noteq> [] \<and>
     chunk_content c = joinWith [nl, nl] (map formatDiffFileForLLM (chunk_files c)) \<and>
     estimatedTokens c = estimateTokens (chunk_content c) \<and>
     (length (chunk_files c) = 1 \<or> int (sumTokens (chunk_files c)) \<le> maxTokens cfg)"

definition chunkInv :: "ChunkConfig \<Rightarrow> ChunkState \<Rightarrow> bool" where
  "chunkInv cfg st \<longleftrightarrow>
     currentContent st = map formatDiffFileForLLM (currentFiles st) \<and>
     currentTokens st = sumTokens (currentFiles st) \<and>
     (length (currentFiles st) \<le> 1 \<or> int (sumTokens (currentFiles st)) \<le> maxTokens cfg) \<and>
     list_all (chunkOk cfg) (chunks st)"

text \<open>
  The specification's failure condition of the parser: some line is a hunk header and no
  earlier line is a file header.
\<close>

fun hunkBeforeFileHeader :: "jsstring list \<Rightarrow> bool" where
  "hunkBeforeFileHeader [] = False"
| "hunkBeforeFileHeader (l # ls) =
     (if DIFF_HEADER_REGEX l \<noteq> None then False
      else if HUNK_HEADER_REGEX l \<noteq> None then True
      else hunkBeforeFileHeader ls)"

text \<open>A line that none of the twelve patterns of the parser matches.\<close>

definition unrecognised :: "jsstring \<Rightarrow> bool" where
  "unrecognised line \<longleftrightarrow>
     DIFF_HEADER_REGEX line = None \<and> RENAME_FROM_REGEX line = None \<and>
     RENAME_TO_REGEX line = None \<and> SIMILARITY_REGEX line = None \<and> \<not> BINARY_REGEX line \<and>
     MODE_OLD_REGEX line = None \<and> MODE_NEW_REGEX line = None \<and>
     NEW_FILE_MODE_REGEX line = None \<and> DELETED_FILE_MODE_REGEX line = None \<and>
     OLD_FILE_REGEX line = None \<and> NEW_FILE_REGEX line = None \<and> HUNK_HEADER_REGEX line = None"

text \<open>The files the parser has begun so far: those pushed, and the current one.\<close>

definition filesSoFar :: "ParserState \<Rightarrow> nat" where
  "filesSoFar st = length (ps_files st) + (case currentFile st of None \<Rightarrow> 0 | Some f \<Rightarrow> 1)"

section \<open>Risk scorer: the score is a monotone function of the summed contributions\<close>


lemma scoreIssues_fst:
  "fst (scoreIssues cfg c xs (s, m)) = s + sum_list (map (contrib cfg c) xs)"
  by (induction xs arbitrary: s m) (simp_all add: contrib_def)

lemma scoreIssues_snd_Critical:
  "snd (scoreIssues cfg c xs (s, m)) = Critical \<longleftrightarrow> m = Critical \<or> (\<exists>i\<in>set xs. severity i = Critical)"
proof (induction xs arbitrary: s m)
  case Nil
  then show ?case by simp
next
  case (Cons i xs)
  show ?case
    by (cases "severity i"; cases m) (simp_all add: Cons.IH)
qed

lemma scoreGroups_eq:
  "scoreGroups cfg g (bd, t) = (bd @ map (mkBreakdown cfg) g, t + groupsTotal cfg g)"
proof (induction g arbitrary: bd t)
  case Nil
  then show ?case by (simp add: groupsTotal_def)
next
  case (Cons p g)
  obtain c xs where p: "p = (c, xs)" by (cases p)
  obtain s m where sm: "scoreIssues cfg c xs (0, Low) = (s, m)" by (cases "scoreIssues cfg c xs (0, Low)")
  have "s = sum_list (map (contrib cfg c) xs)"
    using scoreIssues_fst [of cfg c xs 0 Low] sm by simp
  then show ?case
    using sm by (simp add: p Cons.IH groupsTotal_def mkBreakdown_def)
qed

lemma groupsTotal_push:
  "groupsTotal cfg (groups_push g i) = groupsTotal cfg g + contrib cfg (category i) i"
  by (induction g i rule: groups_push.induct) (simp_all add: groupsTotal_def)

lemma categoryGroups_snoc:
  "categoryGroups (xs @ [x]) = groups_push (categoryGroups xs) x"
  by (simp add: categoryGroups_def)

lemma groupsTotal_categoryGroups:
  "groupsTotal cfg (categoryGroups xs) = sum_list (map (\<lambda>i. contrib cfg (category i) i) xs)"
  by (induction xs rule: rev_induct) (simp_all add: categoryGroups_snoc groupsTotal_push, simp add: categoryGroups_def groupsTotal_def)

lemma rawScore_eq:
  "rawScore (calculateRiskScore xs cfg) = sum_list (map (\<lambda>i. contrib cfg (category i) i) xs)"
  by (simp add: calculateRiskScore_def scoreGroups_eq groupsTotal_categoryGroups Let_def)

lemma score_eq:
  "score (calculateRiskScore xs cfg) = scoreOfRaw cfg (rawScore (calculateRiskScore xs cfg))"
  by (simp add: calculateRiskScore_def scoreGroups_eq Let_def scoreOfRaw_def)

lemma curve_mono:
  fixes a b :: real
  assumes "a \<le> b"
  shows "min 100 (Math_round (min 100 (min 100 (a * 100) * (11 / 10))))
       \<le> min 100 (Math_round (min 100 (min 100 (b * 100) * (11 / 10))))"
proof -
  have "min 100 (a * 100) \<le> min 100 (b * 100)"
    using assms by (intro min.mono) simp_all
  then have "min 100 (a * 100) * (11 / 10) \<le> min 100 (b * 100) * (11 / 10)"
    by (intro mult_right_mono) simp_all
  then have "min 100 (min 100 (a * 100) * (11 / 10)) \<le> min 100 (min 100 (b * 100) * (11 / 10))"
    by (intro min.mono) simp_all
  then have "Math_round (min 100 (min 100 (a * 100) * (11 / 10)))
       \<le> Math_round (min 100 (min 100 (b * 100) * (11 / 10)))"
    unfolding Math_round_def by (intro floor_mono add_right_mono)
  then show ?thesis by (intro min.mono) simp_all
qed

lemma scoreOfRaw_mono:
  assumes "0 < maxExpectedIssues cfg" "s \<le> t"
  shows "scoreOfRaw cfg s \<le> scoreOfRaw cfg t"
proof -
  let ?d = "maxExpectedIssues cfg * SEVERITY_WEIGHTS Critical * CATEGORY_WEIGHTS Security"
  have d: "0 < ?d" using assms(1) by simp
  have "s / ?d \<le> t / ?d" using d assms(2) by (simp add: divide_right_mono)
  then show ?thesis unfolding scoreOfRaw_def by (rule curve_mono)
qed

lemma contrib_default_nonneg:
  "0 \<le> confidence i \<Longrightarrow> 0 \<le> contrib DEFAULT_SCORE_CONFIG c i"
  by (cases "severity i"; cases c) (simp_all add: contrib_def sevWeights_def catWeights_def DEFAULT_SCORE_CONFIG_def)

lemma score_mono_snoc:
  assumes "0 \<le> confidence i"
  shows "score (calculateRiskScore X DEFAULT_SCORE_CONFIG) \<le> score (calculateRiskScore (X @ [i]) DEFAULT_SCORE_CONFIG)"
proof -
  have "rawScore (calculateRiskScore X DEFAULT_SCORE_CONFIG) \<le> rawScore (calculateRiskScore (X @ [i]) DEFAULT_SCORE_CONFIG)"
    using contrib_default_nonneg [OF assms, of "category i"] by (simp add: rawScore_eq)
  moreover have "0 < maxExpectedIssues DEFAULT_SCORE_CONFIG" by (simp add: DEFAULT_SCORE_CONFIG_def)
  ultimately show ?thesis by (simp only: score_eq scoreOfRaw_mono)
qed

section \<open>Risk scorer: the breakdown entry of a category\<close>


lemma groups_push_keys: "fst ` set (groups_push g i) = insert (category i) (fst ` set g)"
  by (induction g i rule: groups_push.induct) auto

lemma groups_push_distinct: "distinct (map fst g) \<Longrightarrow> distinct (map fst (groups_push g i))"
proof (induction g i rule: groups_push.induct)
  case (1 i)
  then show ?case by simp
next
  case (2 c xs g i)
  then show ?case using groups_push_keys [of g i] by auto
qed

lemma groups_push_mem:
  assumes "distinct (map fst g)" "(c, ys) \<in> set (groups_push g i)"
  shows "(c \<noteq> category i \<and> (c, ys) \<in> set g)
       \<or> (c = category i \<and> (\<exists>zs. ys = zs @ [i] \<and> ((c, zs) \<in> set g \<or> (zs = [] \<and> c \<notin> fst ` set g))))"
  using assms
proof (induction g i rule: groups_push.induct)
  case (1 i)
  then show ?case by simp
next
  case (2 c' xs g i)
  show ?case
  proof (cases "c' = category i")
    case True
    with 2 show ?thesis by (auto simp: image_iff) 
  next
    case False
    with 2 show ?thesis by (auto simp: image_iff)
  qed
qed

lemma groupsInv_push:
  assumes "groupsInv g xs"
  shows "groupsInv (groups_push g i) (xs @ [i])"
proof -
  have d: "distinct (map fst g)" using assms by (simp add: groupsInv_def)
  have a: "\<And>c ys. (c, ys) \<in> set g \<Longrightarrow> ys = filter (\<lambda>i. category i = c) xs \<and> ys \<noteq> []"
    using assms by (auto simp: groupsInv_def)
  have b: "\<And>j. j \<in> set xs \<Longrightarrow> category j \<in> fst ` set g"
    using assms by (auto simp: groupsInv_def)
  have "ys = filter (\<lambda>j. category j = c) (xs @ [i]) \<and> ys \<noteq> []"
    if m: "(c, ys) \<in> set (groups_push g i)" for c ys
  proof -
    from groups_push_mem [OF d m] consider
        (old) "c \<noteq> category i" "(c, ys) \<in> set g"
      | (app) zs where "c = category i" "ys = zs @ [i]" "(c, zs) \<in> set g"
      | (new) "c = category i" "ys = [i]" "c \<notin> fst ` set g"
      by auto
    then show ?thesis
    proof cases
      case old
      then show ?thesis using a [of c ys] by auto
    next
      case app
      then show ?thesis using a [of c zs] by auto
    next
      case new
      then have "filter (\<lambda>j. category j = c) xs = []"
        unfolding filter_empty_conv using b new by metis
      then show ?thesis using new by simp
    qed
  qed
  then show ?thesis
    unfolding groupsInv_def using groups_push_distinct [OF d, of i] groups_push_keys [of g i] b
    by auto
qed

lemma groupsInv_categoryGroups: "groupsInv (categoryGroups xs) xs"
proof (induction xs rule: rev_induct)
  case Nil
  then show ?case by (simp add: groupsInv_def categoryGroups_def)
next
  case (snoc x xs)
  then show ?case by (simp add: categoryGroups_snoc groupsInv_push)
qed

lemma find_None_iff': "find P xs = None \<longleftrightarrow> (\<forall>x\<in>set xs. \<not> P x)"
  by (induction xs) auto

lemma find_Some_mem: "find P xs = Some x \<Longrightarrow> x \<in> set xs \<and> P x"
  by (induction xs) (auto split: if_splits)

lemma breakdown_set:
  "set (breakdown (calculateRiskScore xs cfg)) = mkBreakdown cfg ` set (categoryGroups xs)"
  by (simp add: calculateRiskScore_def scoreGroups_eq Let_def)

lemma security_breakdown:
  "(case find (\<lambda>b. cb_category b = Security) (breakdown (calculateRiskScore xs cfg)) of
      None \<Rightarrow> False | Some b \<Rightarrow> max_severity b = Critical)
   \<longleftrightarrow> (\<exists>i\<in>set xs. category i = Security \<and> severity i = Critical)"
  (is "?L \<longleftrightarrow> ?R")
proof -
  let ?bd = "breakdown (calculateRiskScore xs cfg)"
  have inv: "groupsInv (categoryGroups xs) xs" by (rule groupsInv_categoryGroups)
  have crit: "max_severity b = Critical \<longleftrightarrow> ?R" if "b \<in> set ?bd" "cb_category b = Security" for b
  proof -
    from that(1) obtain c ys where m: "(c, ys) \<in> set (categoryGroups xs)" and b: "b = mkBreakdown cfg (c, ys)"
      by (auto simp: breakdown_set)
    have c: "c = Security" using that(2) b by (simp add: mkBreakdown_def)
    have ys: "ys = filter (\<lambda>i. category i = Security) xs"
      using inv m c by (auto simp: groupsInv_def)
    have "max_severity b = Critical \<longleftrightarrow> (\<exists>i\<in>set ys. severity i = Critical)"
      using scoreIssues_snd_Critical [of cfg c ys 0 Low] by (simp add: b mkBreakdown_def)
    then show ?thesis by (auto simp: ys)
  qed
  show ?thesis
  proof (cases "find (\<lambda>b. cb_category b = Security) ?bd")
    case None
    then have no: "\<forall>b\<in>set ?bd. cb_category b \<noteq> Security" by (simp add: find_None_iff')
    have "\<not> ?R"
    proof
      assume ?R
      then obtain i where i: "i \<in> set xs" "category i = Security" by auto
      then have "Security \<in> fst ` set (categoryGroups xs)"
        using inv unfolding groupsInv_def by metis
      then obtain ys where "(Security, ys) \<in> set (categoryGroups xs)" by auto
      then have "mkBreakdown cfg (Security, ys) \<in> set ?bd" by (auto simp: breakdown_set)
      then show False using no by (auto simp: mkBreakdown_def)
    qed
    then show ?thesis using None by simp
  next
    case (Some b)
    then have "b \<in> set ?bd" "cb_category b = Security" using find_Some_mem [OF Some] by auto
    then show ?thesis using crit Some by simp
  qed
qed

section \<open>Risk scorer: claims\<close>

text \<open>
  C6. Risk score monotonicity: for an issue list \<open>X\<close> whose confidences lie in \<open>[0,1]\<close> and
  a further issue \<open>i\<close> with confidence in \<open>[0,1]\<close>, the final 0-100 score of
  \<open>calculateRiskScore\<close> (default configuration) on \<open>X\<close> extended by \<open>i\<close> is at least the
  score on \<open>X\<close>.
\<close>

theorem calculateRiskScore_monotone:
  assumes "\<forall>x\<in>set X. 0 \<le> confidence x \<and> confidence x \<le> 1"
    and "0 \<le> confidence i \<and> confidence i \<le> 1"
  shows "score (calculateRiskScore (X @ [i]) DEFAULT_SCORE_CONFIG)
       \<ge> score (calculateRiskScore X DEFAULT_SCORE_CONFIG)"
  using assms(2) by (simp add: score_mono_snoc)

theorem calculateRiskScore_monotone_witness:
  "confidence (createTestIssue Style Low (1 / 2)) = 1 / 2
   \<and> confidence (createTestIssue Security Critical 1) = 1
   \<and> confidence (createTestIssue Style High 1) = 1
   \<and> score (calculateRiskScore
         ([createTestIssue Style Low (1 / 2), createTestIssue Security Critical 1]
           @ [createTestIssue Style High 1]) DEFAULT_SCORE_CONFIG)
       \<ge> score (calculateRiskScore
         [createTestIssue Style Low (1 / 2), createTestIssue Security Critical 1] DEFAULT_SCORE_CONFIG)"
proof -
  have h1: "\<forall>x\<in>set [createTestIssue Style Low (1 / 2), createTestIssue Security Critical 1].
       0 \<le> confidence x \<and> confidence x \<le> 1"
    by (simp add: createTestIssue_def)
  have h2: "0 \<le> confidence (createTestIssue Style High 1) \<and> confidence (createTestIssue Style High 1) \<le> 1"
    by (simp add: createTestIssue_def)
  from calculateRiskScore_monotone [OF h1 h2] show ?thesis
    by (simp add: createTestIssue_def)
qed

text \<open>
  C7. Check gate: on the result that \<open>calculateRiskScore\<close> computes from an issue set,
  \<open>shouldFailCheck\<close> returns true exactly when the final score is at least the threshold,
  or \<open>failOnCriticalSecurity\<close> holds and some issue of the set has category security and
  severity critical.
\<close>

theorem shouldFailCheck_iff:
  "shouldFailCheck (calculateRiskScore issues cfg) threshold failOnCriticalSecurity \<longleftrightarrow>
     threshold \<le> real_of_int (score (calculateRiskScore issues cfg)) \<or>
     (failOnCriticalSecurity \<and> (\<exists>i\<in>set issues. category i = Security \<and> severity i = Critical))"
  unfolding shouldFailCheck_def using security_breakdown [of issues cfg] by auto

theorem shouldFailCheck_iff_witness:
  "shouldFailCheck (calculateRiskScore [createTestIssue Security Critical (3 / 10)] DEFAULT_SCORE_CONFIG) 85 True
   \<and> \<not> shouldFailCheck (calculateRiskScore [createTestIssue Security Critical (3 / 10)] DEFAULT_SCORE_CONFIG) 85 False
   \<and> score (calculateRiskScore [createTestIssue Security Critical (3 / 10)] DEFAULT_SCORE_CONFIG) = 2"
proof -
  have s: "score (calculateRiskScore [createTestIssue Security Critical (3 / 10)] DEFAULT_SCORE_CONFIG) = 2"
    by (simp add: calculateRiskScore_def categoryGroups_def createTestIssue_def
        DEFAULT_SCORE_CONFIG_def sevWeights_def catWeights_def Math_round_def Let_def)
  have c: "\<exists>i\<in>set [createTestIssue Security Critical (3 / 10)]. category i = Security \<and> severity i = Critical"
    by (simp add: createTestIssue_def)
  show ?thesis
    using shouldFailCheck_iff [of "[createTestIssue Security Critical (3 / 10)]" DEFAULT_SCORE_CONFIG 85 True]
      shouldFailCheck_iff [of "[createTestIssue Security Critical (3 / 10)]" DEFAULT_SCORE_CONFIG 85 False]
      s c by simp
qed

section \<open>Aggregator: deduplication\<close>

lemma seen_set_keys: "map fst (seen_set s k v) = (if k \<in> set (map fst s) then map fst s else map fst s @ [k])"
  by (induction s k v rule: seen_set.induct) auto

lemma seen_set_fresh: "map_of s k = None \<Longrightarrow> seen_set s k v = s @ [(k, v)]"
  by (induction s k v rule: seen_set.induct) (auto split: if_splits)

lemma seen_set_mem: "(k', v') \<in> set (seen_set s k v) \<Longrightarrow> (k', v') \<in> set s \<or> (k', v') = (k, v)"
  by (induction s k v rule: seen_set.induct) (auto split: if_splits)

lemma seenInv_step: "seenInv s \<Longrightarrow> seenInv (dedupStep s i)"
proof -
  assume inv: "seenInv s"
  have "seenInv (seen_set s (createDedupeKey i) i)"
    unfolding seenInv_def
  proof (intro conjI ballI)
    show "distinct (map fst (seen_set s (createDedupeKey i) i))"
      using inv by (simp add: seen_set_keys seenInv_def)
  next
    fix p assume "p \<in> set (seen_set s (createDedupeKey i) i)"
    then show "case p of (k, v) \<Rightarrow> k = createDedupeKey v"
      using seen_set_mem [of "fst p" "snd p" s "createDedupeKey i" i] inv
      by (cases p) (auto simp: seenInv_def)
  qed
  then show ?thesis using inv by (simp add: dedupStep_def Let_def split: option.splits)
qed

lemma seenInv_foldl: "seenInv s \<Longrightarrow> seenInv (foldl dedupStep s xs)"
  by (induction xs arbitrary: s) (simp_all add: seenInv_step)

lemma foldl_dedupStep_fresh:
  "distinct (map createDedupeKey vs) \<Longrightarrow> set (map createDedupeKey vs) \<inter> set (map fst acc) = {} \<Longrightarrow>
   foldl dedupStep acc vs = acc @ map (\<lambda>v. (createDedupeKey v, v)) vs"
proof (induction vs arbitrary: acc)
  case Nil
  then show ?case by simp
next
  case (Cons v vs)
  have "map_of acc (createDedupeKey v) = None"
    using Cons.prems(2) by (auto simp: map_of_eq_None_iff)
  then have step: "dedupStep acc v = acc @ [(createDedupeKey v, v)]"
    by (simp add: dedupStep_def seen_set_fresh)
  have "foldl dedupStep (acc @ [(createDedupeKey v, v)]) vs
        = (acc @ [(createDedupeKey v, v)]) @ map (\<lambda>v. (createDedupeKey v, v)) vs"
    using Cons.prems by (intro Cons.IH) auto
  then show ?case using step by simp
qed

lemma seenInv_values: "seenInv s \<Longrightarrow> map createDedupeKey (map snd s) = map fst s"
  by (induction s) (auto simp: seenInv_def)

lemma dedup_idem: "deduplicateIssues (deduplicateIssues X) = deduplicateIssues X"
proof -
  let ?s = "foldl dedupStep [] X"
  have inv: "seenInv ?s" by (rule seenInv_foldl) (simp add: seenInv_def)
  have k: "map createDedupeKey (map snd ?s) = map fst ?s" by (rule seenInv_values [OF inv])
  have d: "distinct (map createDedupeKey (map snd ?s))" using inv by (simp only: k seenInv_def)
  have "foldl dedupStep [] (map snd ?s) = [] @ map (\<lambda>v. (createDedupeKey v, v)) (map snd ?s)"
    by (rule foldl_dedupStep_fresh [OF d]) simp
  then show ?thesis by (simp add: deduplicateIssues_def comp_def)
qed

lemma shouldReplace_iff: "shouldReplace e n \<longleftrightarrow> rankLess e n"
  by (auto simp: shouldReplace_def rankLess_def Let_def)

lemma rankLess_trans: "rankLess a b \<Longrightarrow> rankLess b c \<Longrightarrow> rankLess a c"
  by (auto simp: rankLess_def)

lemma not_rankLess_trans: "\<not> rankLess a b \<Longrightarrow> \<not> rankLess b c \<Longrightarrow> \<not> rankLess a c"
  by (auto simp: rankLess_def)

lemma rankLess_not_trans: "rankLess a b \<Longrightarrow> \<not> rankLess c b \<Longrightarrow> \<not> rankLess c a"
  by (auto simp: rankLess_def)

lemma map_of_seen_set: "map_of (seen_set s k v) = (map_of s)(k \<mapsto> v)"
  by (induction s k v rule: seen_set.induct) (auto simp: fun_eq_iff)

lemma covered_step_new: "covered (dedupStep s i) i"
  by (auto simp: covered_def dedupStep_def Let_def map_of_seen_set shouldReplace_iff rankLess_def split: option.splits)

lemma covered_step_old: "covered s x \<Longrightarrow> covered (dedupStep s i) x"
  unfolding covered_def dedupStep_def Let_def
  by (auto simp: map_of_seen_set shouldReplace_iff split: option.splits dest: rankLess_not_trans)

lemma covered_foldl_old: "covered s x \<Longrightarrow> covered (foldl dedupStep s xs) x"
  by (induction xs arbitrary: s) (simp_all add: covered_step_old)

lemma covered_foldl: "x \<in> set xs \<Longrightarrow> covered (foldl dedupStep s xs) x"
proof (induction xs arbitrary: s)
  case Nil
  then show ?case by simp
next
  case (Cons a xs)
  then show ?case using covered_step_new covered_foldl_old by auto
qed

lemma dedup_keeps_best:
  assumes "x \<in> set X"
  shows "\<exists>y\<in>set (deduplicateIssues X). createDedupeKey y = createDedupeKey x \<and> \<not> rankLess y x"
proof -
  let ?s = "foldl dedupStep [] X"
  have inv: "seenInv ?s" by (rule seenInv_foldl) (simp add: seenInv_def)
  from covered_foldl [OF assms, of "[]"] obtain y where
    y: "map_of ?s (createDedupeKey x) = Some y" "\<not> rankLess y x" by (auto simp: covered_def)
  then have m: "(createDedupeKey x, y) \<in> set ?s" by (auto dest: map_of_SomeD)
  then have "createDedupeKey x = createDedupeKey y" using inv by (auto simp: seenInv_def)
  moreover have "y \<in> set (deduplicateIssues X)" using m by (force simp: deduplicateIssues_def)
  ultimately show ?thesis using y(2) by auto
qed

lemma dedup_subset: "set (deduplicateIssues X) \<subseteq> set X"
proof -
  have "snd ` set (foldl dedupStep s xs) \<subseteq> snd ` set s \<union> set xs" for s xs
  proof (induction xs arbitrary: s)
    case Nil
    then show ?case by simp
  next
    case (Cons a xs)
    have "snd ` set (dedupStep s a) \<subseteq> snd ` set s \<union> {a}"
      using seen_set_mem [of _ _ s "createDedupeKey a" a]
      by (fastforce simp: dedupStep_def Let_def split: option.splits if_splits)
    then show ?case using Cons.IH [of "dedupStep s a"] by (simp only: foldl_Cons set_simps) blast
  qed
  from this [of "[]" X] show ?thesis by (simp add: deduplicateIssues_def)
qed

section \<open>Aggregator: claims\<close>

lemmas dedup_eval =
  createDedupeKey_def createTestIssue_def numToString_def natToString.simps slice0_def js_def
  deduplicateIssues_def dedupStep_def shouldReplace_def Let_def

text \<open>
  C8. Deduplication idempotence: for every issue list \<open>X\<close>, deduplicating twice equals
  deduplicating once. Deduplication keys issues by
  \<open>filePath:lineStart-lineEnd:category:subtype[0:20]\<close> (\<open>createDedupeKey\<close>); its result has
  pairwise distinct keys, consists of input issues, and for every input issue holds an issue
  of the same key that does not rank below it, rank being severity first and confidence
  second.
\<close>

theorem deduplicateIssues_idempotent:
  "deduplicateIssues (deduplicateIssues X) = deduplicateIssues X
   \<and> distinct (map createDedupeKey (deduplicateIssues X))
   \<and> set (deduplicateIssues X) \<subseteq> set X
   \<and> (\<forall>x\<in>set X. \<exists>y\<in>set (deduplicateIssues X).
         createDedupeKey y = createDedupeKey x \<and> \<not> rankLess y x)"
proof -
  let ?s = "foldl dedupStep [] X"
  have inv: "seenInv ?s" by (rule seenInv_foldl) (simp add: seenInv_def)
  have "distinct (map createDedupeKey (map snd ?s))"
    using inv by (simp only: seenInv_values [OF inv] seenInv_def)
  then have "distinct (map createDedupeKey (deduplicateIssues X))"
    by (simp only: deduplicateIssues_def)
  then show ?thesis
    using dedup_idem [of X] dedup_subset [of X] dedup_keeps_best [of _ X] by blast
qed

theorem deduplicateIssues_idempotent_witness:
  "deduplicateIssues (deduplicateIssues
      [createTestIssue Style Low (1 / 2), createTestIssue Style High (1 / 5),
       createTestIssue Security Low 1, createTestIssue Style High (1 / 10)])
   = [createTestIssue Style High (1 / 5), createTestIssue Security Low 1]"
proof -
  have "deduplicateIssues
      [createTestIssue Style Low (1 / 2), createTestIssue Style High (1 / 5),
       createTestIssue Security Low 1, createTestIssue Style High (1 / 10)]
   = [createTestIssue Style High (1 / 5), createTestIssue Security Low 1]"
    by (simp add: dedup_eval)
  then show ?thesis
    using deduplicateIssues_idempotent
      [of "[createTestIssue Style Low (1 / 2), createTestIssue Style High (1 / 5),
            createTestIssue Security Low 1, createTestIssue Style High (1 / 10)]"]
    by simp
qed

text \<open>
  C2. Risk scoring uses the full filtered set: \<open>aggregateIssues\<close> returns as \<open>riskScore\<close> the
  result of \<open>calculateRiskScore\<close> on its \<open>allIssues\<close> field, which is the deduplicated input
  filtered by \<open>confidence \<ge> confidenceThreshold\<close>; changing \<open>maxInlineComments\<close> changes neither
  \<open>riskScore\<close> nor \<open>allIssues\<close>, and for a non-negative \<open>maxInlineComments\<close> the inline
  comments are the first \<open>maxInlineComments\<close> issues of the priority sort of \<open>allIssues\<close>.
\<close>

theorem aggregateIssues_riskScore_full_set:
  "riskScore (aggregateIssues issues cfg)
     = calculateRiskScore (allIssues (aggregateIssues issues cfg)) DEFAULT_SCORE_CONFIG
   \<and> allIssues (aggregateIssues issues cfg)
     = filter (\<lambda>i. confidence i \<ge> confidenceThreshold cfg) (deduplicateIssues issues)
   \<and> riskScore (aggregateIssues issues (cfg\<lparr>maxInlineComments := m\<rparr>))
     = riskScore (aggregateIssues issues cfg)
   \<and> allIssues (aggregateIssues issues (cfg\<lparr>maxInlineComments := m\<rparr>))
     = allIssues (aggregateIssues issues cfg)
   \<and> (0 \<le> maxInlineComments cfg \<longrightarrow>
        inlineComments (aggregateIssues issues cfg)
          = take (nat (maxInlineComments cfg))
              (sortIssuesByPriority (allIssues (aggregateIssues issues cfg))))"
  by (simp add: aggregateIssues_def Let_def slice0_def)

theorem aggregateIssues_riskScore_full_set_witness:
  "inlineComments (aggregateIssues
      [createTestIssue Style Low (1 / 2), createTestIssue Security Critical 1,
       createTestIssue Correctness High (2 / 5)] sampleWorkerConfig)
     = [createTestIssue Security Critical 1]
   \<and> allIssues (aggregateIssues
      [createTestIssue Style Low (1 / 2), createTestIssue Security Critical 1,
       createTestIssue Correctness High (2 / 5)] sampleWorkerConfig)
     = [createTestIssue Style Low (1 / 2), createTestIssue Security Critical 1]
   \<and> score (riskScore (aggregateIssues
      [createTestIssue Style Low (1 / 2), createTestIssue Security Critical 1,
       createTestIssue Correctness High (2 / 5)] sampleWorkerConfig)) = 6"
proof -
  let ?X = "[createTestIssue Style Low (1 / 2), createTestIssue Security Critical 1,
       createTestIssue Correctness High (2 / 5)]"
  have d: "deduplicateIssues ?X = ?X"
    by (simp add: dedup_eval)
  have m: "0 \<le> maxInlineComments sampleWorkerConfig" "nat (maxInlineComments sampleWorkerConfig) = 1"
    "confidenceThreshold sampleWorkerConfig = 1 / 2"
    by (simp_all add: sampleWorkerConfig_def)
  note t = aggregateIssues_riskScore_full_set [of ?X sampleWorkerConfig 0]
  have t1: "riskScore (aggregateIssues ?X sampleWorkerConfig)
      = calculateRiskScore (allIssues (aggregateIssues ?X sampleWorkerConfig)) DEFAULT_SCORE_CONFIG"
    by (rule t [THEN conjunct1])
  have t2: "allIssues (aggregateIssues ?X sampleWorkerConfig)
      = filter (\<lambda>i. confidence i \<ge> confidenceThreshold sampleWorkerConfig) (deduplicateIssues ?X)"
    by (rule t [THEN conjunct2, THEN conjunct1])
  have t5: "inlineComments (aggregateIssues ?X sampleWorkerConfig)
      = take (nat (maxInlineComments sampleWorkerConfig))
          (sortIssuesByPriority (allIssues (aggregateIssues ?X sampleWorkerConfig)))"
    using t m(1) by blast
  have a: "allIssues (aggregateIssues ?X sampleWorkerConfig)
      = [createTestIssue Style Low (1 / 2), createTestIssue Security Critical 1]"
    unfolding t2 d m(3) by (simp add: createTestIssue_def)
  have i: "inlineComments (aggregateIssues ?X sampleWorkerConfig) = [createTestIssue Security Critical 1]"
    unfolding t5 a m(2) by (simp add: sortIssuesByPriority_def getIssueScore_def createTestIssue_def)
  have s: "score (riskScore (aggregateIssues ?X sampleWorkerConfig)) = 6"
    unfolding t1 a by (simp add: calculateRiskScore_def categoryGroups_def createTestIssue_def
        DEFAULT_SCORE_CONFIG_def sevWeights_def catWeights_def Math_round_def Let_def)
  from i a s show ?thesis by simp
qed

section \<open>Comment formatter\<close>

lemma length_slice0_le: "0 \<le> e \<Longrightarrow> int (length (slice0 xs e)) \<le> e"
  by (simp add: slice0_def)

lemma length_truncateText:
  assumes "int (length indicator) \<le> maxLength"
  shows "int (length (truncateText text maxLength indicator)) \<le> maxLength"
proof (cases "int (length text) \<le> maxLength")
  case True
  then show ?thesis by (simp add: truncateText_def)
next
  case False
  have "int (length (slice0 text (maxLength - int (length indicator)))) \<le> maxLength - int (length indicator)"
    using assms by (intro length_slice0_le) simp
  then show ?thesis using False by (simp add: truncateText_def)
qed

lemma truncateText_exact:
  assumes "int (length indicator) \<le> maxLength" "maxLength < int (length text)"
  shows "int (length (truncateText text maxLength indicator)) = maxLength"
  using assms by (simp add: truncateText_def slice0_def)

text \<open>
  C10. Inline-comment length bound: for every issue and every comment configuration with
  \<open>maxInlineChars \<ge> 3\<close>, the string \<open>formatInlineComment\<close> returns has at most
  \<open>maxInlineChars\<close> UTF-16 code units (900 under the default configuration).
\<close>

theorem formatInlineComment_length:
  "(3 \<le> maxInlineChars cfg \<longrightarrow>
      int (length (formatInlineComment issue cfg)) \<le> maxInlineChars cfg)
   \<and> int (length (formatInlineComment issue DEFAULT_COMMENT_CONFIG)) \<le> 900"
proof -
  have l: "int (length (js ''...'')) = 3" by (simp add: js_def)
  have "int (length (formatInlineComment issue c)) \<le> maxInlineChars c" if "3 \<le> maxInlineChars c" for c
    unfolding formatInlineComment_def Let_def
    by (rule length_truncateText) (simp add: l that)
  from this [of cfg] this [of DEFAULT_COMMENT_CONFIG] show ?thesis
    by (simp add: DEFAULT_COMMENT_CONFIG_def)
qed

theorem formatInlineComment_length_witness:
  "formatInlineComment validIssue (DEFAULT_COMMENT_CONFIG\<lparr>maxInlineChars := 19\<rparr>)
     = [0xD83D, 0xDD34] @ js '' **CRITICAL** ...''
   \<and> int (length (formatInlineComment validIssue (DEFAULT_COMMENT_CONFIG\<lparr>maxInlineChars := 19\<rparr>))) \<le> 19"
proof -
  have "(3::int) \<le> maxInlineChars (DEFAULT_COMMENT_CONFIG\<lparr>maxInlineChars := 19\<rparr>)" by simp
  with formatInlineComment_length [of "DEFAULT_COMMENT_CONFIG\<lparr>maxInlineChars := 19\<rparr>" validIssue]
  have b: "int (length (formatInlineComment validIssue (DEFAULT_COMMENT_CONFIG\<lparr>maxInlineChars := 19\<rparr>))) \<le> 19"
    by simp
  have "formatInlineComment validIssue (DEFAULT_COMMENT_CONFIG\<lparr>maxInlineChars := 19\<rparr>)
     = [0xD83D, 0xDD34] @ js '' **CRITICAL** ...''"
    by (simp add: formatInlineComment_def validIssue_def DEFAULT_COMMENT_CONFIG_def truncateText_def
        slice0_def js_def Let_def)
  with b show ?thesis by simp
qed

section \<open>Chunker\<close>

lemma chunkedFiles_createChunk: "chunkedFiles (createChunk st) = chunkedFiles st"
  by (simp add: createChunk_def chunkedFiles_def Let_def)

lemma currentFiles_createChunk: "currentFiles (createChunk st) = []"
  by (simp add: createChunk_def Let_def)

lemma chunkedFiles_chunkStep: "chunkedFiles (chunkStep cfg st file) = chunkedFiles st @ [file]"
proof -
  have "chunkedFiles (s\<lparr>currentFiles := currentFiles s @ [file], currentContent := c, currentTokens := t\<rparr>)
        = chunkedFiles s @ [file]" for s c t
    by (simp add: chunkedFiles_def)
  then show ?thesis
    by (simp add: chunkStep_def Let_def chunkedFiles_createChunk)
qed

lemma chunkedFiles_foldl: "chunkedFiles (foldl (chunkStep cfg) st fs) = chunkedFiles st @ fs"
  by (induction fs arbitrary: st) (simp_all add: chunkedFiles_chunkStep)

lemma chunk_files_totalChunks: "map chunk_files (map (\<lambda>chunk. chunk\<lparr>totalChunks := n\<rparr>) cs) = map chunk_files cs"
  by (induction cs) simp_all

text \<open>
  C5. Chunk partition invariant: for every parsed diff and chunk configuration, the
  concatenation of the \<open>files\<close> arrays of the chunks \<open>chunkDiff\<close> returns, in chunk order, is
  exactly \<open>diff.files\<close> in input order.
\<close>

theorem chunkDiff_partition:
  "concat (map chunk_files (chunkDiff diff cfg)) = files diff"
proof (cases "length (files diff) = 0")
  case True
  then show ?thesis by (simp add: chunkDiff_def)
next
  case False
  let ?st = "createChunk (foldl (chunkStep cfg)
      \<lparr>chunks = [], currentFiles = [], currentContent = [], currentTokens = 0\<rparr> (files diff))"
  have "chunkedFiles ?st = files diff"
    by (simp add: chunkedFiles_createChunk chunkedFiles_foldl) (simp add: chunkedFiles_def)
  moreover have "currentFiles ?st = []" by (rule currentFiles_createChunk)
  ultimately have "concat (map chunk_files (chunks ?st)) = files diff"
    by (simp add: chunkedFiles_def)
  then show ?thesis using False
    by (simp add: chunkDiff_def Let_def chunk_files_totalChunks del: map_map)
qed

lemma length_format_contextFile:
  "length (formatDiffFileForLLM (contextFile p n)) = 56 + length p + n"
  by (simp add: formatDiffFileForLLM_def contextFile_def getFilePath_def numToString_def
      natToString.simps js_def Let_def)

lemma tokens_contextFile:
  "estimateTokens (formatDiffFileForLLM (contextFile p n)) = (59 + length p + n) div 4"
  by (simp add: estimateTokens_def length_format_contextFile)

lemma files_diffOf: "files (diffOf fs) = fs"
  by (simp add: diffOf_def)

lemma length_sample_paths: "length (js ''a.ts'') = 4" "length (js ''b.ts'') = 4"
  by (simp_all add: js_def)

lemma chunkInv_createChunk: "chunkInv cfg st \<Longrightarrow> chunkInv cfg (createChunk st)"
  by (cases "currentFiles st")
     (auto simp: chunkInv_def createChunk_def Let_def chunkOk_def sumTokens_def)

lemma chunkInv_push:
  assumes "chunkInv cfg st"
    and "currentFiles st = [] \<or> int (currentTokens st + fileTokens file) \<le> maxTokens cfg"
  shows "chunkInv cfg (st\<lparr>currentFiles := currentFiles st @ [file],
           currentContent := currentContent st @ [formatDiffFileForLLM file],
           currentTokens := currentTokens st + fileTokens file\<rparr>)"
  using assms by (auto simp: chunkInv_def sumTokens_def)

lemma chunkInv_chunkStep:
  assumes "chunkInv cfg st"
  shows "chunkInv cfg (chunkStep cfg st file)"
proof -
  define st1 where "st1 =
    (if int (fileTokens file) > maxTokens cfg \<and> length (currentFiles st) > 0
     then createChunk st else st)"
  define st2 where "st2 =
    (if int (currentTokens st1 + fileTokens file) > maxTokens cfg
         \<or> int (length (currentFiles st1)) \<ge> maxFilesPerChunk cfg
     then createChunk st1 else st1)"
  have i1: "chunkInv cfg st1"
    unfolding st1_def using assms by (simp add: chunkInv_createChunk)
  have i2: "chunkInv cfg st2"
    unfolding st2_def using i1 by (simp add: chunkInv_createChunk)
  have c: "currentFiles st2 = [] \<or> int (currentTokens st2 + fileTokens file) \<le> maxTokens cfg"
    unfolding st2_def by (auto simp: currentFiles_createChunk)
  have "chunkStep cfg st file = st2\<lparr>currentFiles := currentFiles st2 @ [file],
           currentContent := currentContent st2 @ [formatDiffFileForLLM file],
           currentTokens := currentTokens st2 + fileTokens file\<rparr>"
    unfolding st2_def st1_def by (simp add: chunkStep_def Let_def fileTokens_def)
  then show ?thesis using chunkInv_push [OF i2 c] by simp
qed

lemma chunkInv_foldl: "chunkInv cfg st \<Longrightarrow> chunkInv cfg (foldl (chunkStep cfg) st fs)"
  by (induction fs arbitrary: st) (simp_all add: chunkInv_chunkStep)

lemma chunkOk_totalChunks: "chunkOk cfg (c\<lparr>totalChunks := n\<rparr>) = chunkOk cfg c"
  by (simp add: chunkOk_def)

lemma chunkDiff_chunkOk: "c \<in> set (chunkDiff diff cfg) \<Longrightarrow> chunkOk cfg c"
proof -
  assume m: "c \<in> set (chunkDiff diff cfg)"
  let ?st = "createChunk (foldl (chunkStep cfg)
      \<lparr>chunks = [], currentFiles = [], currentContent = [], currentTokens = 0\<rparr> (files diff))"
  have "chunkInv cfg ?st"
    by (intro chunkInv_createChunk chunkInv_foldl) (simp add: chunkInv_def sumTokens_def)
  then have "list_all (chunkOk cfg) (chunks ?st)" by (simp add: chunkInv_def)
  moreover from m obtain c' where "c' \<in> set (chunks ?st)" "c = c'\<lparr>totalChunks := length (chunks ?st)\<rparr>"
    by (auto simp: chunkDiff_def Let_def split: if_splits)
  ultimately show ?thesis by (auto simp: list_all_iff chunkOk_totalChunks)
qed

lemma length_joinWith:
  "ps \<noteq> [] \<Longrightarrow> length (joinWith sep ps) + length sep = sum_list (map length ps) + length ps * length sep"
  by (induction sep ps rule: joinWith.induct) simp_all

lemma sum_lengths_le: "sum_list (map (\<lambda>f. length (formatDiffFileForLLM f)) fs) \<le> 4 * sumTokens fs"
  by (induction fs) (simp_all add: sumTokens_def fileTokens_def estimateTokens_def)

lemma estimated_le_sum:
  assumes "chunkOk cfg c"
  shows "estimatedTokens c \<le> sumTokens (chunk_files c) + length (chunk_files c) div 2"
proof -
  let ?fs = "chunk_files c"
  let ?ps = "map formatDiffFileForLLM ?fs"
  have ne: "?ps \<noteq> []" using assms by (simp add: chunkOk_def)
  have "length (chunk_content c) + 2 = sum_list (map length ?ps) + length ?ps * 2"
    using length_joinWith [OF ne, of "[nl, nl]"] assms by (simp add: chunkOk_def)
  moreover have "sum_list (map length ?ps) \<le> 4 * sumTokens ?fs"
    using sum_lengths_le [of ?fs] by (simp add: comp_def)
  ultimately have "length (chunk_content c) + 2 \<le> 4 * sumTokens ?fs + 2 * length ?fs" by simp
  moreover have "estimatedTokens c = (length (chunk_content c) + 3) div 4"
    using assms by (simp add: chunkOk_def estimateTokens_def)
  ultimately show ?thesis by linarith
qed

lemma chunk_budget_on_file_sums:
  assumes "c \<in> set (chunkDiff diff cfg)"
  shows "(\<exists>f. chunk_files c = [f] \<and> estimatedTokens c = estimateTokens (formatDiffFileForLLM f))
       \<or> (int (sumTokens (chunk_files c)) \<le> maxTokens cfg
          \<and> estimatedTokens c \<le> sumTokens (chunk_files c) + length (chunk_files c) div 2)"
proof -
  have ok: "chunkOk cfg c" using assms by (rule chunkDiff_chunkOk)
  show ?thesis
  proof (cases "length (chunk_files c) = 1")
    case True
    then obtain f where f: "chunk_files c = [f]" by (cases "chunk_files c") auto
    then show ?thesis using ok by (simp add: chunkOk_def)
  next
    case False
    then show ?thesis using ok estimated_le_sum [OF ok] by (simp add: chunkOk_def)
  qed
qed

text \<open>
  C4. Chunk token budget: the claim is that every chunk has \<open>estimatedTokens \<le> maxTokens\<close>
  unless it holds exactly one file that alone exceeds the budget. Evaluated under the
  default configuration (\<open>maxTokens = 4000\<close>) on two files whose formatted texts have 8000
  code units each (2000 estimated tokens each), \<open>chunkDiff\<close> returns one chunk holding both
  files with \<open>estimatedTokens = 4001\<close>: the budget test adds per-file estimates and leaves
  out the two-unit separators that the chunk content is joined with.
\<close>

theorem chunkDiff_budget_failing_input:
  "map (\<lambda>c. (length (chunk_files c), estimatedTokens c))
     (chunkDiff (diffOf [contextFile (js ''a.ts'') 7940, contextFile (js ''b.ts'') 7940]) DEFAULT_CHUNK_CONFIG)
   = [(2, 4001)]
   \<and> map (\<lambda>f. estimateTokens (formatDiffFileForLLM f))
       [contextFile (js ''a.ts'') 7940, contextFile (js ''b.ts'') 7940] = [2000, 2000]
   \<and> maxTokens DEFAULT_CHUNK_CONFIG = 4000"
  by (simp add: chunkDiff_def chunkStep_def createChunk_def files_diffOf tokens_contextFile length_sample_paths
      DEFAULT_CHUNK_CONFIG_def Let_def)
     (simp add: estimateTokens_def length_format_contextFile length_sample_paths)

section \<open>Diff parser\<close>

lemmas regex_eval =
  DIFF_HEADER_REGEX_def HUNK_HEADER_REGEX_def OLD_FILE_REGEX_def NEW_FILE_REGEX_def
  RENAME_FROM_REGEX_def RENAME_TO_REGEX_def SIMILARITY_REGEX_def BINARY_REGEX_def
  MODE_OLD_REGEX_def MODE_NEW_REGEX_def NEW_FILE_MODE_REGEX_def DELETED_FILE_MODE_REGEX_def
  matchPath_def matchRest_def matchDigits_def optCount_def
  stripPrefix_def startsWith_def endsWith_def js_def isDot_def isDigit_def nl_def parseInt_def

lemmas parser_eval =
  parseDiff_def parseLine_def fileLine_def hunkLine_def initialParserState_def
  finalizeFile_def finalizeHunk_def Let_def

lemma splitOn_nonempty: "splitOn s a \<noteq> []"
  by (induction a) (auto split: list.splits)

lemma splitOn_sep_append: "splitOn s (a @ s # b) = splitOn s a @ splitOn s b"
proof (induction a)
  case Nil
  then show ?case by simp
next
  case (Cons c a)
  then show ?case using splitOn_nonempty [of s a] 
    by (cases "splitOn s a") (auto split: list.splits)
qed

lemma parseLine_skip:
  "currentFile st = None \<Longrightarrow> DIFF_HEADER_REGEX l = None \<Longrightarrow> parseLine st l = st"
  by (simp add: parseLine_def)

lemma foldl_parseLine_skip:
  "currentFile st = None \<Longrightarrow> \<forall>l\<in>set ls. DIFF_HEADER_REGEX l = None \<Longrightarrow> foldl parseLine st ls = st"
  by (induction ls) (simp_all add: parseLine_skip)

lemma parseDiff_skip_prefix:
  assumes "\<forall>l\<in>set (splitOn nl pre). DIFF_HEADER_REGEX l = None"
  shows "parseDiff (pre @ [nl] @ rest) = parseDiff rest"
proof -
  have "foldl parseLine initialParserState (splitOn nl pre) = initialParserState"
    using assms by (intro foldl_parseLine_skip) (simp_all add: initialParserState_def)
  then show ?thesis
    by (simp add: parseDiff_def splitOn_sep_append)
qed

lemma finalizeHunk_files: "ps_files (finalizeHunk st) = ps_files st"
  by (simp add: finalizeHunk_def split: option.splits)

lemma finalizeHunk_currentFile: "(currentFile (finalizeHunk st) = None) = (currentFile st = None)"
  by (simp add: finalizeHunk_def split: option.splits)

lemma finalizeFile_length: "length (ps_files (finalizeFile st)) = filesSoFar st"
proof (cases "currentFile st")
  case None
  then have "currentFile (finalizeHunk st) = None" by (simp add: finalizeHunk_currentFile)
  then show ?thesis using None
    by (simp add: finalizeFile_def filesSoFar_def Let_def finalizeHunk_files)
next
  case (Some f)
  then obtain g where "currentFile (finalizeHunk st) = Some g"
    using finalizeHunk_currentFile [of st] by (cases "currentFile (finalizeHunk st)") auto
  then show ?thesis using Some
    by (simp add: finalizeFile_def filesSoFar_def Let_def finalizeHunk_files)
qed

lemma finalizeFile_currentFile: "currentFile (finalizeFile st) = None"
  by (simp add: finalizeFile_def Let_def split: option.splits)

lemma hunkLine_files:
  "ps_files (hunkLine st f h line) = ps_files st \<and> currentFile (hunkLine st f h line) \<noteq> None"
  if "currentFile st = Some f"
  using that by (simp add: hunkLine_def Let_def)

lemma fileLine_files:
  assumes "currentFile st = Some f"
  shows "ps_files (fileLine st f line) = ps_files st \<and> currentFile (fileLine st f line) \<noteq> None"
  using assms hunkLine_files [OF assms] finalizeHunk_currentFile [of st]
  by (simp add: fileLine_def finalizeHunk_files split: option.splits prod.splits)

lemma filesSoFar_parseLine:
  "filesSoFar (parseLine st l) = filesSoFar st + (if DIFF_HEADER_REGEX l \<noteq> None then 1 else 0)"
proof (cases "DIFF_HEADER_REGEX l")
  case None
  show ?thesis
  proof (cases "currentFile st")
    case N: None
    then show ?thesis using None by (simp add: parseLine_def)
  next
    case (Some f)
    from fileLine_files [OF Some, of l] obtain g where
      "ps_files (fileLine st f l) = ps_files st" "currentFile (fileLine st f l) = Some g" by auto
    then show ?thesis using None Some by (simp add: parseLine_def filesSoFar_def)
  qed
next
  case (Some p)
  obtain a b where p: "p = (a, b)" by (cases p)
  show ?thesis
    using Some p finalizeFile_length [of st] finalizeFile_currentFile [of st]
    by (simp add: parseLine_def filesSoFar_def)
qed

lemma filesSoFar_foldl:
  "filesSoFar (foldl parseLine st ls)
     = filesSoFar st + length (filter (\<lambda>l. DIFF_HEADER_REGEX l \<noteq> None) ls)"
  by (induction ls arbitrary: st) (simp_all add: filesSoFar_parseLine)

lemma parseDiff_file_count:
  "\<exists>d. parseDiff input = Inr d
       \<and> length (files d) = length (filter (\<lambda>l. DIFF_HEADER_REGEX l \<noteq> None) (splitOn nl input))"
  by (simp add: parseDiff_def Let_def finalizeFile_length filesSoFar_foldl)
     (simp add: filesSoFar_def initialParserState_def)

lemma parseLine_unrecognised_no_hunk:
  "unrecognised line \<Longrightarrow> currentHunk st = None \<Longrightarrow> parseLine st line = st"
  by (simp add: unrecognised_def parseLine_def fileLine_def split: option.splits)

lemma parseLine_unrecognised_in_hunk:
  assumes "unrecognised line" "currentFile st = Some f" "currentHunk st = Some h"
    and "line \<noteq> []" "\<not> startsWith line (js ''+'')" "\<not> startsWith line (js ''-'')"
        "\<not> startsWith line (js '' '')"
  shows "parseLine st line = st\<lparr>hunkContent := hunkContent st @ [line]\<rparr>"
  using assms by (simp add: unrecognised_def parseLine_def fileLine_def hunkLine_def Let_def)

text \<open>
  The model on the repository's own fixture: one modified file, two added lines and one
  removed, two hunks, the added lines numbered 12 and 13 (what diff-parser.test.ts expects).
\<close>

lemma parseDiff_SAMPLE_DIFF:
  "(case parseDiff SAMPLE_DIFF of
      Inr d \<Rightarrow>
        Some (map (\<lambda>f. (oldPath f, newPath f, changeType f, isBinary f, linesAdded f, linesRemoved f,
                    map (\<lambda>h. (oldStart h, oldCount h, newStart h, newCount h,
                               map lineNumber (addedLines h), map lineNumber (removedLines h)))
                        (hunks f))) (files d),
         totalLinesAdded d, totalLinesRemoved d, totalFilesChanged d)
    | Inl e \<Rightarrow> None)
   = Some ([(Some (js ''src/utils.ts''), Some (js ''src/utils.ts''), Modify, False, 2, 1,
        [(10, 6, 10, 8, [12, 13], []), (20, 4, 22, 3, [], [21])])], 2, 1, 1)"
  by (simp add: SAMPLE_DIFF_def regex_eval parser_eval)

text \<open>
  C3, as claimed: \<open>parseDiff\<close> fails with \<open>MalformedDiff\<close> exactly when a hunk header comes
  before any file header. On the input of two lines \<open>@@ -1,2 +1,2 @@\<close> and \<open>+x\<close> a hunk
  header comes before any file header, and \<open>parseDiff\<close> returns the empty \<open>ParsedDiff\<close>.
\<close>

theorem parseDiff_hunk_before_header_counterexample:
  "hunkBeforeFileHeader (splitOn nl (js ''@@ -1,2 +1,2 @@\<newline>+x''))
   \<and> parseDiff (js ''@@ -1,2 +1,2 @@\<newline>+x'')
     = Inr \<lparr>files = [], totalLinesAdded = 0, totalLinesRemoved = 0, totalFilesChanged = 0\<rparr>"
  by (simp add: regex_eval parser_eval)

text \<open>
  C3, amended: \<open>parseDiff\<close> never fails: for every input it returns a \<open>ParsedDiff\<close>, with
  one file per file-header line of the input. Every line before the first file header, a
  hunk header included, is skipped: a prefix of lines none of which is a file header does
  not change the result. A line that matches none of the parser's patterns is skipped
  when no hunk is open; inside an open hunk such a line, when it is not empty and does not
  begin with \<open>+\<close>, \<open>-\<close> or a space, is appended to the raw content of the hunk and changes
  nothing else.
\<close>

theorem parseDiff_total_and_lenient:
  "(\<exists>d. parseDiff input = Inr d
        \<and> length (files d)
          = length (filter (\<lambda>l. DIFF_HEADER_REGEX l \<noteq> None) (splitOn nl input)))
   \<and> ((\<forall>l\<in>set (splitOn nl pre). DIFF_HEADER_REGEX l = None) \<longrightarrow>
        parseDiff (pre @ [nl] @ rest) = parseDiff rest)
   \<and> (unrecognised line \<and> currentHunk st = None \<longrightarrow> parseLine st line = st)
   \<and> (unrecognised line \<and> currentFile st = Some f \<and> currentHunk st = Some h
        \<and> line \<noteq> [] \<and> \<not> startsWith line (js ''+'') \<and> \<not> startsWith line (js ''-'')
        \<and> \<not> startsWith line (js '' '') \<longrightarrow>
        parseLine st line = st\<lparr>hunkContent := hunkContent st @ [line]\<rparr>)"
  using parseDiff_file_count [of input] parseDiff_skip_prefix [of pre rest]
    parseLine_unrecognised_no_hunk [of line st]
    parseLine_unrecognised_in_hunk [of line st f h]
  by blast

theorem parseDiff_total_and_lenient_witness:
  "parseDiff (js ''@@ -1,2 +1,2 @@\<newline>+x\<newline>diff --git a/f b/f\<newline>garbage\<newline>--- a/f\<newline>+++ b/f\<newline>@@ -1 +1,2 @@\<newline> a\<newline>garbage\<newline>+y'')
   = Inr \<lparr>files =
            [\<lparr>oldPath = Some (js ''f''), newPath = Some (js ''f''), changeType = Modify,
              isBinary = False, modeChange = None, similarity = None,
              hunks =
                [\<lparr>oldStart = 1, oldCount = 1, newStart = 1, newCount = 2,
                  hunk_content = js ''@@ -1 +1,2 @@\<newline> a\<newline>garbage\<newline>+y'',
                  addedLines = [\<lparr>lineNumber = 2, line_content = js ''y''\<rparr>],
                  removedLines = []\<rparr>],
              linesAdded = 1, linesRemoved = 0\<rparr>],
          totalLinesAdded = 1, totalLinesRemoved = 0, totalFilesChanged = 1\<rparr>
   \<and> parseLine initialParserState (js ''garbage'') = initialParserState
   \<and> hunkContent
        (parseLine
           (foldl parseLine initialParserState [js ''diff --git a/f b/f'', js ''@@ -1 +1,2 @@''])
           (js ''garbage''))
     = [js ''@@ -1 +1,2 @@'', js ''garbage'']"
proof -
  let ?pre = "js ''@@ -1,2 +1,2 @@\<newline>+x''"
  let ?rest = "js ''diff --git a/f b/f\<newline>garbage\<newline>--- a/f\<newline>+++ b/f\<newline>@@ -1 +1,2 @@\<newline> a\<newline>garbage\<newline>+y''"
  let ?g = "js ''garbage''"
  define st where
    "st = foldl parseLine initialParserState [js ''diff --git a/f b/f'', js ''@@ -1 +1,2 @@'']"
  let ?f = "\<lparr>oldPath = Some (js ''f''), newPath = Some (js ''f''), changeType = Modify,
              isBinary = False, modeChange = None, similarity = None, hunks = [],
              linesAdded = 0, linesRemoved = 0\<rparr>"
  let ?h = "\<lparr>oldStart = 1, oldCount = 1, newStart = 1, newCount = 2, hunk_content = [],
              addedLines = [], removedLines = []\<rparr>"
  note t = parseDiff_total_and_lenient [of ?rest ?pre ?rest ?g initialParserState ?f ?h]
  note u = parseDiff_total_and_lenient [of ?rest ?pre ?rest ?g st ?f ?h]
  have s: "js ''@@ -1,2 +1,2 @@\<newline>+x\<newline>diff --git a/f b/f\<newline>garbage\<newline>--- a/f\<newline>+++ b/f\<newline>@@ -1 +1,2 @@\<newline> a\<newline>garbage\<newline>+y''
      = ?pre @ [nl] @ ?rest"
    by (simp add: js_def nl_def)
  have hp: "\<forall>l\<in>set (splitOn nl ?pre). DIFF_HEADER_REGEX l = None"
    by (simp add: regex_eval)
  have g: "unrecognised ?g" "?g \<noteq> []" "\<not> startsWith ?g (js ''+'')" "\<not> startsWith ?g (js ''-'')"
    "\<not> startsWith ?g (js '' '')"
    by (simp_all add: unrecognised_def regex_eval)
  have c0: "currentHunk initialParserState = None" by (simp add: initialParserState_def)
  have cf: "currentFile st = Some ?f" and ch: "currentHunk st = Some ?h"
    and hc: "hunkContent st = [js ''@@ -1 +1,2 @@'']"
    unfolding st_def by (simp_all add: regex_eval parser_eval)
  have "parseDiff (?pre @ [nl] @ ?rest) = parseDiff ?rest" using t hp by blast
  then have 1: "parseDiff (?pre @ [nl] @ ?rest)
   = Inr \<lparr>files =
            [\<lparr>oldPath = Some (js ''f''), newPath = Some (js ''f''), changeType = Modify,
              isBinary = False, modeChange = None, similarity = None,
              hunks =
                [\<lparr>oldStart = 1, oldCount = 1, newStart = 1, newCount = 2,
                  hunk_content = js ''@@ -1 +1,2 @@\<newline> a\<newline>garbage\<newline>+y'',
                  addedLines = [\<lparr>lineNumber = 2, line_content = js ''y''\<rparr>],
                  removedLines = []\<rparr>],
              linesAdded = 1, linesRemoved = 0\<rparr>],
          totalLinesAdded = 1, totalLinesRemoved = 0, totalFilesChanged = 1\<rparr>"
    by (simp add: regex_eval parser_eval)
  have 2: "parseLine initialParserState ?g = initialParserState" using t g(1) c0 by blast
  have "parseLine st ?g = st\<lparr>hunkContent := hunkContent st @ [?g]\<rparr>"
    using u g cf ch by blast
  then have 3: "hunkContent (parseLine st ?g) = [js ''@@ -1 +1,2 @@'', ?g]"
    by (simp add: hc)
  from 1 2 3 show ?thesis unfolding s st_def by blast
qed

section \<open>Webhook signature verification\<close>

lemma byte_unat: "k < 256 \<Longrightarrow> unat (byteOf k) = k"
  by (simp add: byteOf_def unat_of_nat)

lemma unat16_lt: "unat (c :: jschar) < 65536"
  using unsigned_less [of c, where ?'a = nat] by simp

lemma asciiByte_byteOf: "k < 256 \<Longrightarrow> asciiByte (byteOf k) \<longleftrightarrow> k < 128"
  by (simp add: asciiByte_def byte_unat)

lemma utf8Encode_ascii: "isAscii t \<Longrightarrow> utf8Encode t = map (\<lambda>c. byteOf (unat c)) t"
  by (induction t rule: utf8Encode.induct) (simp_all add: isAscii_def Let_def)

lemma not_ascii_replacementChar: "\<not> list_all asciiByte (replacementChar @ bs)"
  by (simp add: replacementChar_def asciiByte_def)

lemma not_ascii_utf8Three: "\<not> list_all asciiByte (utf8Three (unat (c :: jschar)) @ bs)"
proof -
  have "unat c div 4096 < 16" using unat16_lt [of c] by simp
  then have "224 + unat c div 4096 < 256" by simp
  then show ?thesis by (simp add: utf8Three_def asciiByte_byteOf)
qed

lemma not_ascii_utf8Four:
  assumes "isHighSurrogate (unat (c :: jschar))" "isLowSurrogate (unat (d :: jschar))"
  shows "\<not> list_all asciiByte (utf8Four (0x10000 + (unat c - 0xD800) * 0x400 + (unat d - 0xDC00)) @ bs)"
proof -
  define cp where "cp = 0x10000 + (unat c - 0xD800) * 0x400 + (unat d - 0xDC00)"
  have "cp < 262144 * 16" using assms unfolding cp_def isHighSurrogate_def isLowSurrogate_def by arith
  then have "cp div 262144 < 16" by (simp only: less_mult_imp_div_less)
  then have "240 + cp div 262144 < 256" by simp
  then have "\<not> list_all asciiByte (utf8Four cp @ bs)" by (simp add: utf8Four_def asciiByte_byteOf)
  then show ?thesis unfolding cp_def .
qed

lemma not_ascii_two: "n < 0x800 \<Longrightarrow> \<not> asciiByte (byteOf (0xC0 + n div 64))"
proof -
  assume "n < 0x800"
  then have "n div 64 < 32" by simp
  then have "192 + n div 64 < 256" by simp
  then show ?thesis by (simp add: asciiByte_byteOf)
qed

lemma utf8Encode_ascii_bytes: "list_all asciiByte (utf8Encode s) \<Longrightarrow> isAscii s"
proof (induction s rule: utf8Encode.induct)
  case 1
  then show ?case by (simp add: isAscii_def)
next
  case (2 c)
  show ?case
  proof (cases "unat c < 0x80")
    case True
    then show ?thesis by (simp add: isAscii_def)
  next
    case False
    then have False
      using "2.prems" not_ascii_two [of "unat c"] not_ascii_replacementChar [of "[]"] not_ascii_utf8Three [of c "[]"]
      by (simp add: Let_def split: if_splits)
    then show ?thesis ..
  qed
next
  case (3 c d ds)
  show ?case
  proof (cases "unat c < 0x80")
    case True
    then have "list_all asciiByte (utf8Encode (d # ds))" using "3.prems" by (simp add: Let_def)
    then have "isAscii (d # ds)" using True by (intro "3.IH"(1)) simp_all
    then show ?thesis using True by (simp add: isAscii_def)
  next
    case False
    then have False
      using "3.prems" not_ascii_two [of "unat c"] not_ascii_replacementChar [of "utf8Encode (d # ds)"]
        not_ascii_utf8Three [of c "utf8Encode (d # ds)"] not_ascii_utf8Four [of c d "utf8Encode ds"]
      by (simp add: Let_def split: if_splits)
    then show ?thesis ..
  qed
qed

lemma ascii_bytes_of_ascii: "isAscii t \<Longrightarrow> list_all asciiByte (map (\<lambda>c. byteOf (unat c)) t)"
  by (induction t) (simp_all add: isAscii_def asciiByte_byteOf)

lemma ascii_map_inj:
  "isAscii s \<Longrightarrow> isAscii t \<Longrightarrow> map (\<lambda>c. byteOf (unat c)) s = map (\<lambda>c. byteOf (unat c)) t \<Longrightarrow> s = t"
proof (induction s arbitrary: t)
  case Nil
  then show ?case by simp
next
  case (Cons c s)
  then obtain c' t' where t: "t = c' # t'" by (cases t) auto
  have b: "unat c < 256" "unat c' < 256" using Cons.prems t by (simp_all add: isAscii_def)
  have "byteOf (unat c) = byteOf (unat c')" using Cons.prems t by simp
  then have "unat (byteOf (unat c)) = unat (byteOf (unat c'))" by simp
  then have "unat c = unat c'" using b by (simp only: byte_unat)
  then have "c = c'" by (simp add: word_unat_eq_iff)
  moreover have "s = t'" using Cons.prems t by (intro Cons.IH) (simp_all add: isAscii_def)
  ultimately show ?case using t by simp
qed

lemma utf8Encode_eq_ascii:
  assumes "isAscii t"
  shows "utf8Encode s = utf8Encode t \<longleftrightarrow> s = t"
proof
  assume e: "utf8Encode s = utf8Encode t"
  have t: "utf8Encode t = map (\<lambda>c. byteOf (unat c)) t" using assms by (rule utf8Encode_ascii)
  have "list_all asciiByte (utf8Encode s)" using ascii_bytes_of_ascii [OF assms] e t by simp
  then have s: "isAscii s" by (rule utf8Encode_ascii_bytes)
  then have "utf8Encode s = map (\<lambda>c. byteOf (unat c)) s" by (rule utf8Encode_ascii)
  then show "s = t" using e t ascii_map_inj [OF s assms] by simp
qed simp

lemma isAscii_append: "isAscii (a @ b) \<longleftrightarrow> isAscii a \<and> isAscii b"
  by (simp add: isAscii_def)

lemma isAscii_hexDigit: "d < 16 \<Longrightarrow> unat (hexDigit d) < 0x80"
  by (simp add: hexDigit_def unat_of_nat del: of_nat_add)

lemma isAscii_hexOf: "isAscii (hexOf bs)"
proof (induction bs)
  case Nil
  then show ?case by (simp add: hexOf_def isAscii_def)
next
  case (Cons b bs)
  have "unat b < 256" using unsigned_less [of b, where ?'a = nat] by simp
  then have "unat b div 16 < 16" by simp
  then show ?case using Cons by (simp add: hexOf_def isAscii_def isAscii_hexDigit)
qed

lemma isAscii_expectedSignature: "isAscii (expectedSignature hmac payload secret)"
  by (simp add: expectedSignature_def isAscii_append isAscii_hexOf) (simp add: isAscii_def js_def)

lemma verifySignature_iff:
  "verifySignature hmac payload signature secret \<longleftrightarrow> signature = expectedSignature hmac payload secret"
  using utf8Encode_eq_ascii [OF isAscii_expectedSignature, of signature hmac payload secret]
  by (auto simp: verifySignature_def timingSafeEqual_def)

text \<open>
  C1. Webhook signature verification: for every raw body, secret and signature string,
  \<open>verifySignature\<close> returns true exactly when the signature is \<open>sha256=\<close> followed by the
  lower-case hex HMAC-SHA256 digest of the body under the secret (for every digest function
  \<open>hmac\<close>); on every other signature, of whatever length, it returns false without raising
  and the middleware responds 401 without calling the next handler; a missing or
  non-string signature header yields 401 as well.
\<close>

theorem verifySignature_and_middleware:
  "(verifySignature hmac payload signature secret
      \<longleftrightarrow> signature = js ''sha256='' @ hexOf (hmac (utf8Encode secret) (utf8Encode payload)))
   \<and> (signatureHeader req = HeaderString signature \<and> rawBody req = Some payload
        \<and> signature \<noteq> js ''sha256='' @ hexOf (hmac (utf8Encode secret) (utf8Encode payload))
      \<longrightarrow> signatureMiddleware hmac secret req = Respond 401 (js ''Invalid signature''))
   \<and> (signatureHeader req = HeaderString signature \<and> rawBody req = Some payload
        \<and> signature = js ''sha256='' @ hexOf (hmac (utf8Encode secret) (utf8Encode payload))
      \<longrightarrow> signatureMiddleware hmac secret req = Next)
   \<and> ((\<forall>s. signatureHeader req \<noteq> HeaderString s)
      \<longrightarrow> signatureMiddleware hmac secret req = Respond 401 (js ''Missing signature header''))"
proof -
  have v: "verifySignature hmac p s k \<longleftrightarrow> s = js ''sha256='' @ hexOf (hmac (utf8Encode k) (utf8Encode p))"
    for p s k
    using verifySignature_iff [of hmac p s k] by (simp add: expectedSignature_def)
  have m: "(\<forall>s. signatureHeader req \<noteq> HeaderString s)
      \<longrightarrow> signatureMiddleware hmac secret req = Respond 401 (js ''Missing signature header'')"
    by (cases "signatureHeader req") (simp_all add: signatureMiddleware_def)
  show ?thesis using v m by (simp add: signatureMiddleware_def)
qed

theorem verifySignature_and_middleware_witness:
  "signatureMiddleware sampleHmac (js ''s3cret'')
      \<lparr>signatureHeader = HeaderString (js ''sha256=beef''), rawBody = Some (js ''{}'')\<rparr>
     = Respond 401 (js ''Invalid signature'')
   \<and> signatureMiddleware sampleHmac (js ''s3cret'')
      \<lparr>signatureHeader = HeaderString (js ''sha256=dead''), rawBody = Some (js ''{}'')\<rparr>
     = Next
   \<and> signatureMiddleware sampleHmac (js ''s3cret'')
      \<lparr>signatureHeader = HeaderArray [js ''sha256=dead''], rawBody = Some (js ''{}'')\<rparr>
     = Respond 401 (js ''Missing signature header'')
   \<and> \<not> verifySignature sampleHmac (js ''{}'') (js ''sha256=deadbeef'') (js ''s3cret'')"
proof -
  have e: "js ''sha256='' @ hexOf (sampleHmac (utf8Encode (js ''s3cret'')) (utf8Encode (js ''{}'')))
      = js ''sha256=dead''"
    by (simp add: sampleHmac_def hexOf_def hexDigit_def js_def)
  have n: "js ''sha256=beef'' \<noteq> js ''sha256=dead''" "js ''sha256=deadbeef'' \<noteq> js ''sha256=dead''"
    by (simp_all add: js_def)
  have "signatureMiddleware sampleHmac (js ''s3cret'')
      \<lparr>signatureHeader = HeaderString (js ''sha256=beef''), rawBody = Some (js ''{}'')\<rparr>
     = Respond 401 (js ''Invalid signature'')"
    using verifySignature_and_middleware [of sampleHmac "js ''{}''" "js ''sha256=beef''" "js ''s3cret''"
        "\<lparr>signatureHeader = HeaderString (js ''sha256=beef''), rawBody = Some (js ''{}'')\<rparr>"]
      n(1) unfolding e by simp
  moreover have "signatureMiddleware sampleHmac (js ''s3cret'')
      \<lparr>signatureHeader = HeaderString (js ''sha256=dead''), rawBody = Some (js ''{}'')\<rparr>
     = Next"
    using verifySignature_and_middleware [of sampleHmac "js ''{}''" "js ''sha256=dead''" "js ''s3cret''"
        "\<lparr>signatureHeader = HeaderString (js ''sha256=dead''), rawBody = Some (js ''{}'')\<rparr>"]
    unfolding e by simp
  moreover have "signatureMiddleware sampleHmac (js ''s3cret'')
      \<lparr>signatureHeader = HeaderArray [js ''sha256=dead''], rawBody = Some (js ''{}'')\<rparr>
     = Respond 401 (js ''Missing signature header'')"
    using verifySignature_and_middleware [of sampleHmac "js ''{}''" "js ''sha256=dead''" "js ''s3cret''"
        "\<lparr>signatureHeader = HeaderArray [js ''sha256=dead''], rawBody = Some (js ''{}'')\<rparr>"]
    by simp
  moreover have "\<not> verifySignature sampleHmac (js ''{}'') (js ''sha256=deadbeef'') (js ''s3cret'')"
    using verifySignature_and_middleware [of sampleHmac "js ''{}''" "js ''sha256=deadbeef''" "js ''s3cret''"
        "\<lparr>signatureHeader = HeaderUndefined, rawBody = None\<rparr>"]
      n(2) unfolding e by simp
  ultimately show ?thesis by blast
qed

section \<open>Vulnerability scanner\<close>

lemma mapOsvSeverity_cases:
  "mapOsvSeverity pf v =
     (case osv_severity v of
        None \<Rightarrow> Medium
      | Some [] \<Rightarrow> Medium
      | Some (s # rest) \<Rightarrow>
          if numGe (parseFloatArg pf (osv_score s)) 9 then Critical
          else if numGe (parseFloatArg pf (osv_score s)) 7 then High
          else if numGe (parseFloatArg pf (osv_score s)) 4 then Medium
          else Low)"
  by (simp add: mapOsvSeverity_def Let_def split: option.splits list.splits)

lemma vulnIssue_conforming:
  assumes "conforming v"
  shows "\<exists>i. vulnIssue env p dep n v = Inr i \<and> mappedFields i = claimedFields env dep v"
proof -
  from assms obtain a b d where "vuln_id v = Some a" "summary v = Some b" "details v = Some d"
    by (auto simp: conforming_def)
  then show ?thesis
    by (simp add: vulnIssue_def mappedFields_def claimedFields_def templateString_def slice0_def
        mapOsvSeverity_cases)
qed

lemma pushVulns_conforming:
  assumes "\<forall>v\<in>set vs. conforming v"
  shows "scan_thrown (pushVulns env p dep vs st) = scan_thrown st
       \<and> map mappedFields (scan_issues (pushVulns env p dep vs st))
         = map mappedFields (scan_issues st) @ map (claimedFields env dep) vs"
  using assms
proof (induction vs arbitrary: st)
  case Nil
  then show ?case by simp
next
  case (Cons v vs)
  from Cons.prems have "conforming v" by simp
  from vulnIssue_conforming [OF this, of env p dep "uuid_count st"] obtain i where
    i: "vulnIssue env p dep (uuid_count st) v = Inr i" "mappedFields i = claimedFields env dep v"
    by blast
  have "\<forall>v\<in>set vs. conforming v" using Cons.prems by simp
  from Cons.IH [OF this, of "st\<lparr>scan_issues := scan_issues st @ [i], uuid_count := uuid_count st + 1\<rparr>"]
  show ?case by (simp add: i)
qed

lemma pushVulns_queried: "scan_queried (pushVulns env p dep vs st) = scan_queried st"
  by (induction vs arbitrary: st) (simp_all split: sum.splits)

lemma scanLoop_conforming:
  assumes "\<forall>dep\<in>set deps. \<forall>v\<in>set (queryOsv env (osvApiUrl cfg) dep). conforming v"
    and "scan_thrown st = None"
  shows "scan_thrown (scanLoop env cfg p deps st) = None
       \<and> map mappedFields (scan_issues (scanLoop env cfg p deps st))
         = map mappedFields (scan_issues st)
           @ concat (map (\<lambda>dep. map (claimedFields env dep) (queryOsv env (osvApiUrl cfg) dep)) deps)"
  using assms
proof (induction deps arbitrary: st)
  case Nil
  then show ?case by simp
next
  case (Cons dep deps)
  let ?st1 = "pushVulns env p dep (queryOsv env (osvApiUrl cfg) dep)
                (st\<lparr>scan_queried := scan_queried st @ [dep]\<rparr>)"
  have c: "\<forall>v\<in>set (queryOsv env (osvApiUrl cfg) dep). conforming v" using Cons.prems(1) by simp
  from pushVulns_conforming [OF c, of env p dep "st\<lparr>scan_queried := scan_queried st @ [dep]\<rparr>"]
  have t: "scan_thrown ?st1 = None"
    and f: "map mappedFields (scan_issues ?st1)
        = map mappedFields (scan_issues st) @ map (claimedFields env dep) (queryOsv env (osvApiUrl cfg) dep)"
    using Cons.prems(2) by simp_all
  have r: "\<forall>dep\<in>set deps. \<forall>v\<in>set (queryOsv env (osvApiUrl cfg) dep). conforming v"
    using Cons.prems(1) by simp
  from Cons.IH [OF r t] show ?case by (simp add: Let_def t f)
qed

lemma scanLoop_queried:
  "\<exists>k\<le>length deps. scan_queried (scanLoop env cfg p deps st) = scan_queried st @ take k deps"
proof (induction deps arbitrary: st)
  case Nil
  then show ?case by simp
next
  case (Cons dep deps)
  let ?st1 = "pushVulns env p dep (queryOsv env (osvApiUrl cfg) dep)
                (st\<lparr>scan_queried := scan_queried st @ [dep]\<rparr>)"
  have q: "scan_queried ?st1 = scan_queried st @ [dep]" by (simp add: pushVulns_queried)
  show ?case
  proof (cases "scan_thrown ?st1")
    case None
    from Cons.IH [of ?st1] obtain k where
      "k \<le> length deps" "scan_queried (scanLoop env cfg p deps ?st1) = scan_queried ?st1 @ take k deps"
      by blast
    then have "Suc k \<le> length (dep # deps)
        \<and> scan_queried (scanLoop env cfg p (dep # deps) st) = scan_queried st @ take (Suc k) (dep # deps)"
      using None q by (simp add: Let_def)
    then show ?thesis by blast
  next
    case (Some e)
    then have "Suc 0 \<le> length (dep # deps)
        \<and> scan_queried (scanLoop env cfg p (dep # deps) st) = scan_queried st @ take (Suc 0) (dep # deps)"
      using q by (simp add: Let_def)
    then show ?thesis by blast
  qed
qed

lemma scanDependenciesRun_queried:
  "length (scan_queried (scanDependenciesRun env content path cfg)) \<le> 50
   \<and> scan_queried (scanDependenciesRun env content path cfg)
     = take (length (scan_queried (scanDependenciesRun env content path cfg)))
         (lockfileDeps env content path)"
proof (cases "enableOsvScan cfg")
  case False
  then show ?thesis by (simp add: scanDependenciesRun_def)
next
  case True
  let ?D = "lockfileDeps env content path"
  let ?st0 = "\<lparr>scan_issues = [], scan_queried = [], uuid_count = 0, scan_thrown = None\<rparr>"
  from scanLoop_queried [of "take 50 ?D" env cfg path ?st0] obtain k where
    k: "k \<le> length (take 50 ?D)" and
    q: "scan_queried (scanLoop env cfg path (take 50 ?D) ?st0) = take k (take 50 ?D)"
    by auto
  have k50: "k \<le> 50" "k \<le> length ?D" using k by simp_all
  then have "take k (take 50 ?D) = take k ?D" by (simp add: min_def)
  then have "scan_queried (scanDependenciesRun env content path cfg) = take k ?D"
    using True q by (simp add: scanDependenciesRun_def slice0_def)
  then show ?thesis using k50 by simp
qed

lemmas scan_eval =
  scanDependencies_def scanDependenciesRun_def lockfileDeps_def sampleScanEnv_def bareScanEnv_def
  sampleWorkerConfig_def lodash_def lodashAdvisory_def vulnIssue_def mapOsvSeverity_def
  templateString_def parseFloatArg_def slice0_def startsWith_def js_def Let_def

text \<open>
  C9, as claimed: every vulnerability the service returns yields exactly one issue, whose
  message has the form \<open><VULN-ID>: <summary> (<name>@<version>)\<close>. For \<open>lodash@4.17.11\<close> and
  the advisory \<open>GHSA-jf85-cpcp-j695\<close> the message that \<open>scanDependencies\<close> produces is not of
  that form: the identifier is wrapped in the Markdown bold markers \<open>**\<close>. And when the
  service returns that advisory without its \<open>details\<close>, \<open>scanDependencies\<close> produces no issue
  for it: the scan ends with a \<open>TypeError\<close>.
\<close>

theorem scanDependencies_message_counterexample:
  "map_sum id (map message)
     (scanDependencies sampleScanEnv (js ''{}'') (js ''package.json'') sampleWorkerConfig)
     = Inr [js ''**GHSA-jf85-cpcp-j695**: Prototype Pollution in lodash (lodash@4.17.11)'']
   \<and> js ''**GHSA-jf85-cpcp-j695**: Prototype Pollution in lodash (lodash@4.17.11)''
     \<noteq> js ''GHSA-jf85-cpcp-j695: Prototype Pollution in lodash (lodash@4.17.11)''
   \<and> scanDependencies bareScanEnv (js ''{}'') (js ''package.json'') sampleWorkerConfig
     = Inl TypeError"
  by (simp add: scan_eval)

text \<open>
  C9, amended: when the scan is enabled and every vulnerability that the service returns
  for the first 50 parsed dependencies carries its id, summary and details, as the
  interface \<open>OsvVulnerability\<close> declares, \<open>scanDependencies\<close> returns exactly one issue per
  such dependency and vulnerability returned for it, in that order, with category
  dependency, confidence 0.95, \<open>line_start = line_end = 1\<close>, evidence the first 200 code units
  of the details, message \<open>**<VULN-ID>**: <summary> (<name>@<version>)\<close>, and severity medium
  when the vulnerability has no severity entry, else by \<open>parseFloat\<close> of the first entry's
  score: \<open>\<ge> 9\<close> critical, \<open>\<ge> 7\<close> high, \<open>\<ge> 4\<close> medium, else low (also when that score is
  missing or not a number). In every case the dependencies queried are at most the first
  50 parsed ones, in order.
\<close>

theorem scanDependencies_issue_mapping:
  "(enableOsvScan cfg
      \<and> (\<forall>dep\<in>set (take 50 (lockfileDeps env content path)).
           \<forall>v\<in>set (queryOsv env (osvApiUrl cfg) dep).
             vuln_id v \<noteq> None \<and> summary v \<noteq> None \<and> details v \<noteq> None)
    \<longrightarrow> (\<exists>issues. scanDependencies env content path cfg = Inr issues
          \<and> map mappedFields issues
            = concat (map (\<lambda>dep. map (\<lambda>v.
                (Dependency, 95 / 100, 1, 1, take 200 (the (details v)),
                 js ''**'' @ the (vuln_id v) @ js ''**: '' @ the (summary v) @ js '' ('' @
                   dep_name dep @ js ''@'' @ dep_version dep @ js '')'',
                 (case osv_severity v of
                    None \<Rightarrow> Medium
                  | Some [] \<Rightarrow> Medium
                  | Some (s # rest) \<Rightarrow>
                      if numGe (parseFloatArg (parseFloat env) (osv_score s)) 9 then Critical
                      else if numGe (parseFloatArg (parseFloat env) (osv_score s)) 7 then High
                      else if numGe (parseFloatArg (parseFloat env) (osv_score s)) 4 then Medium
                      else Low)))
                (queryOsv env (osvApiUrl cfg) dep)) (take 50 (lockfileDeps env content path)))))
   \<and> length (scan_queried (scanDependenciesRun env content path cfg)) \<le> 50
   \<and> scan_queried (scanDependenciesRun env content path cfg)
     = take (length (scan_queried (scanDependenciesRun env content path cfg)))
         (lockfileDeps env content path)"
proof -
  let ?D = "take 50 (lockfileDeps env content path)"
  let ?st0 = "\<lparr>scan_issues = [], scan_queried = [], uuid_count = 0, scan_thrown = None\<rparr>"
  have "\<exists>issues. scanDependencies env content path cfg = Inr issues
          \<and> map mappedFields issues
            = concat (map (\<lambda>dep. map (claimedFields env dep) (queryOsv env (osvApiUrl cfg) dep)) ?D)"
    if e: "enableOsvScan cfg"
      and c: "\<forall>dep\<in>set ?D. \<forall>v\<in>set (queryOsv env (osvApiUrl cfg) dep).
                vuln_id v \<noteq> None \<and> summary v \<noteq> None \<and> details v \<noteq> None"
  proof -
    have c': "\<forall>dep\<in>set ?D. \<forall>v\<in>set (queryOsv env (osvApiUrl cfg) dep). conforming v"
      using c by (simp add: conforming_def)
    from scanLoop_conforming [OF c', of ?st0 path]
    show ?thesis using e
      by (simp add: scanDependencies_def scanDependenciesRun_def slice0_def Let_def)
  qed
  then show ?thesis
    using scanDependenciesRun_queried [of env content path cfg]
    unfolding claimedFields_def by blast
qed

theorem scanDependencies_issue_mapping_witness:
  "map_sum id (map mappedFields)
     (scanDependencies sampleScanEnv (js ''{}'') (js ''package.json'') sampleWorkerConfig)
     = Inr [(Dependency, 95 / 100, 1, 1,
         js ''Versions of lodash before 4.17.12 are vulnerable to Prototype Pollution.'',
         js ''**GHSA-jf85-cpcp-j695**: Prototype Pollution in lodash (lodash@4.17.11)'', High)]
   \<and> length (scan_queried
        (scanDependenciesRun sampleScanEnv (js ''{}'') (js ''package.json'') sampleWorkerConfig)) \<le> 50"
proof -
  have e: "enableOsvScan sampleWorkerConfig" by (simp add: sampleWorkerConfig_def)
  have d: "take 50 (lockfileDeps sampleScanEnv (js ''{}'') (js ''package.json'')) = [lodash]"
    by (simp add: lockfileDeps_def sampleScanEnv_def Let_def js_def)
  have q: "queryOsv sampleScanEnv (osvApiUrl sampleWorkerConfig) lodash = [lodashAdvisory]"
    by (simp add: sampleScanEnv_def)
  have c: "\<forall>dep\<in>set (take 50 (lockfileDeps sampleScanEnv (js ''{}'') (js ''package.json''))).
           \<forall>v\<in>set (queryOsv sampleScanEnv (osvApiUrl sampleWorkerConfig) dep).
             vuln_id v \<noteq> None \<and> summary v \<noteq> None \<and> details v \<noteq> None"
    unfolding d by (simp add: q) (simp add: lodashAdvisory_def)
  note t = scanDependencies_issue_mapping
    [of sampleWorkerConfig sampleScanEnv "js ''{}''" "js ''package.json''"]
  from t e c obtain issues where
    i: "scanDependencies sampleScanEnv (js ''{}'') (js ''package.json'') sampleWorkerConfig = Inr issues"
    and m: "map mappedFields issues
      = concat (map (\<lambda>dep. map (\<lambda>v.
                (Dependency, 95 / 100, 1, 1, take 200 (the (details v)),
                 js ''**'' @ the (vuln_id v) @ js ''**: '' @ the (summary v) @ js '' ('' @
                   dep_name dep @ js ''@'' @ dep_version dep @ js '')'',
                 (case osv_severity v of
                    None \<Rightarrow> Medium
                  | Some [] \<Rightarrow> Medium
                  | Some (s # rest) \<Rightarrow>
                      if numGe (parseFloatArg (parseFloat sampleScanEnv) (osv_score s)) 9 then Critical
                      else if numGe (parseFloatArg (parseFloat sampleScanEnv) (osv_score s)) 7 then High
                      else if numGe (parseFloatArg (parseFloat sampleScanEnv) (osv_score s)) 4 then Medium
                      else Low)))
                (queryOsv sampleScanEnv (osvApiUrl sampleWorkerConfig) dep))
          (take 50 (lockfileDeps sampleScanEnv (js ''{}'') (js ''package.json''))))"
    by blast
  have "map mappedFields issues
      = [(Dependency, 95 / 100, 1, 1,
         js ''Versions of lodash before 4.17.12 are vulnerable to Prototype Pollution.'',
         js ''**GHSA-jf85-cpcp-j695**: Prototype Pollution in lodash (lodash@4.17.11)'', High)]"
    unfolding m d by (simp add: q) (simp add: lodashAdvisory_def lodash_def sampleScanEnv_def parseFloatArg_def js_def)
  then have "map_sum id (map mappedFields)
     (scanDependencies sampleScanEnv (js ''{}'') (js ''package.json'') sampleWorkerConfig)
     = Inr [(Dependency, 95 / 100, 1, 1,
         js ''Versions of lodash before 4.17.12 are vulnerable to Prototype Pollution.'',
         js ''**GHSA-jf85-cpcp-j695**: Prototype Pollution in lodash (lodash@4.17.11)'', High)]"
    by (simp add: i)
  moreover have "length (scan_queried
        (scanDependenciesRun sampleScanEnv (js ''{}'') (js ''package.json'') sampleWorkerConfig)) \<le> 50"
    using t by blast
  ultimately show ?thesis by (rule conjI)
qed

end
